theory Spec2Isabelle
  imports Main "HOL-Library.Word"
begin

unbundle bit_operations_syntax

section \<open>Common data\<close>

text \<open>
  Instants are JavaScript epoch milliseconds (\<open>Date.now()\<close>, \<open>getTime()\<close>), modelled as
  \<open>int\<close>. Strings are byte strings. Bytes of a Node \<open>Buffer\<close> and 32-bit quantities are
  \<open>int\<close> values with the wrap-around written out (\<open>mod 2 ^ 32\<close>).
\<close>

datatype js_error = RangeError | Error string

section \<open>Node's \<open>crypto\<close>: SHA-1 and HMAC\<close>

text \<open>
  \<open>crypto.createHmac('sha1', key).update(msg).digest()\<close> is library code. It is
  modelled from the standards it implements: SHA-1 (FIPS 180-4) and HMAC (RFC 2104).
  A 32-bit word is an \<open>int\<close> in \<open>[0, 2 ^ 32)\<close>, a byte an \<open>int\<close> in \<open>[0, 256)\<close>.
\<close>

definition add32 :: "int \<Rightarrow> int \<Rightarrow> int" where
  "add32 a b = (a + b) mod 4294967296"

definition rotl32 :: "nat \<Rightarrow> int \<Rightarrow> int" where
  "rotl32 n x = ((x * 2 ^ n) mod 4294967296) OR (x div 2 ^ (32 - n))"

fun be32 :: "int list \<Rightarrow> int" where
  "be32 (a # b # c # d # _) = ((a * 256 + b) * 256 + c) * 256 + d"
| "be32 _ = 0"

fun block_words :: "nat \<Rightarrow> int list \<Rightarrow> int list" where
  "block_words 0 bs = []"
| "block_words (Suc n) bs = be32 bs # block_words n (drop 4 bs)"

text \<open>The message schedule, kept in reverse order: the head is the latest word.\<close>

fun sha1_schedule :: "nat \<Rightarrow> int list \<Rightarrow> int list" where
  "sha1_schedule 0 ws = ws"
| "sha1_schedule (Suc n) ws =
     sha1_schedule n (rotl32 1 (ws ! 2 XOR ws ! 7 XOR ws ! 13 XOR ws ! 15) # ws)"

definition sha1_f :: "nat \<Rightarrow> int \<Rightarrow> int \<Rightarrow> int \<Rightarrow> int" where
  "sha1_f t b c d =
     (if t < 20 then (b AND c) OR ((4294967295 - b) AND d)
      else if t < 40 then b XOR c XOR d
      else if t < 60 then (b AND c) OR (b AND d) OR (c AND d)
      else b XOR c XOR d)"

definition sha1_k :: "nat \<Rightarrow> int" where
  "sha1_k t =
     (if t < 20 then 0x5A827999 else if t < 40 then 0x6ED9EBA1
      else if t < 60 then 0x8F1BBCDC else 0xCA62C1D6)"

type_synonym sha1_state = "int \<times> int \<times> int \<times> int \<times> int"

fun sha1_rounds :: "nat \<Rightarrow> int list \<Rightarrow> sha1_state \<Rightarrow> sha1_state" where
  "sha1_rounds t [] s = s"
| "sha1_rounds t (w # ws) (a, b, c, d, e) =
     sha1_rounds (Suc t) ws
       (add32 (add32 (add32 (add32 (rotl32 5 a) (sha1_f t b c d)) e) (sha1_k t)) w,
        a, rotl32 30 b, c, d)"

definition sha1_compress :: "sha1_state \<Rightarrow> int list \<Rightarrow> sha1_state" where
  "sha1_compress h blk =
     (case h of (h0, h1, h2, h3, h4) \<Rightarrow>
       (case sha1_rounds 0 (rev (sha1_schedule 64 (rev (block_words 16 blk)))) h of
          (a, b, c, d, e) \<Rightarrow> (add32 h0 a, add32 h1 b, add32 h2 c, add32 h3 d, add32 h4 e)))"

fun sha1_blocks :: "nat \<Rightarrow> sha1_state \<Rightarrow> int list \<Rightarrow> sha1_state" where
  "sha1_blocks 0 h bs = h"
| "sha1_blocks (Suc n) h bs = sha1_blocks n (sha1_compress h (take 64 bs)) (drop 64 bs)"

definition word_bytes :: "int \<Rightarrow> int list" where
  "word_bytes w = [w div 16777216 mod 256, w div 65536 mod 256, w div 256 mod 256, w mod 256]"

definition sha1_pad :: "int list \<Rightarrow> int list" where
  "sha1_pad m =
     (let l = length m; z = (119 - l mod 64) mod 64; n = int l * 8
      in m @ [128] @ replicate z 0 @ word_bytes (n div 4294967296) @ word_bytes (n mod 4294967296))"

definition sha1 :: "int list \<Rightarrow> int list" where
  "sha1 m =
     (let p = sha1_pad m in
      case sha1_blocks (length p div 64)
             (0x67452301, 0xEFCDAB89, 0x98BADCFE, 0x10325476, 0xC3D2E1F0) p of
        (a, b, c, d, e) \<Rightarrow>
          word_bytes a @ word_bytes b @ word_bytes c @ word_bytes d @ word_bytes e)"

definition hmac_sha1 :: "int list \<Rightarrow> int list \<Rightarrow> int list" where
  "hmac_sha1 key msg =
     (let k0 = (if length key > 64 then sha1 key else key);
          k = k0 @ replicate (64 - length k0) 0
      in sha1 (map (\<lambda>b. b XOR 0x5C) k @ sha1 (map (\<lambda>b. b XOR 0x36) k @ msg)))"

section \<open>TOTP engine: \<open>SecurityService.verifyTOTPToken\<close>\<close>

definition base32chars :: string where
  "base32chars = ''ABCDEFGHIJKLMNOPQRSTUVWXYZ234567''"

fun indexOf :: "string \<Rightarrow> char \<Rightarrow> nat option" where
  "indexOf [] c = None"
| "indexOf (x # xs) c =
     (if x = c then Some 0 else map_option Suc (indexOf xs c))"

definition toUpperCase :: "char \<Rightarrow> char" where
  "toUpperCase c =
     (let n = (of_char c :: nat) in if 97 \<le> n \<and> n \<le> 122 then char_of (n - 32) else c)"

text \<open>
  The base32 loop of the source. \<open>value\<close> is the 32-bit pattern of the JavaScript
  number: \<open>(value << 5) | index\<close> keeps the low 32 bits, \<open>>>>\<close> shifts the unsigned
  pattern. A character outside the alphabet is skipped (\<open>continue\<close>).
\<close>

fun base32_loop :: "string \<Rightarrow> nat \<Rightarrow> int \<Rightarrow> int list \<Rightarrow> int list" where
  "base32_loop [] bits val output = output"
| "base32_loop (c # cs) bits val output =
     (case indexOf base32chars (toUpperCase c) of
        None \<Rightarrow> base32_loop cs bits val output
      | Some index \<Rightarrow>
          (let val' = ((val * 32) mod 4294967296) OR int index;
               bits' = bits + 5
           in if bits' \<ge> 8
              then base32_loop cs (bits' - 8) val'
                     (output @ [(val' div 2 ^ (bits' - 8)) AND 255])
              else base32_loop cs bits' val' output))"

definition secretBuffer :: "string \<Rightarrow> int list" where
  "secretBuffer secret = base32_loop secret 0 0 []"

text \<open>\<open>Buffer.writeUInt32BE\<close> throws a range error on a value outside \<open>[0, 2 ^ 32 - 1]\<close>.\<close>

definition writeUInt32BE :: "int \<Rightarrow> js_error + int list" where
  "writeUInt32BE v =
     (if v < 0 \<or> v > 4294967295 then Inl RangeError else Inr (word_bytes v))"

text \<open>\<open>time & 0xffffffff\<close> is JavaScript's \<open>ToInt32\<close> of \<open>time\<close>: a signed 32-bit value.\<close>

definition toInt32 :: "int \<Rightarrow> int" where
  "toInt32 x = (let u = x mod 4294967296 in if u \<ge> 2147483648 then u - 4294967296 else u)"

definition timeBuffer :: "int \<Rightarrow> js_error + int list" where
  "timeBuffer time =
     (case writeUInt32BE (time div 4294967296) of
        Inl e \<Rightarrow> Inl e
      | Inr hi \<Rightarrow>
          (case writeUInt32BE (toInt32 time) of
             Inl e \<Rightarrow> Inl e
           | Inr lo \<Rightarrow> Inr (hi @ lo)))"

text \<open>\<open>Number.prototype.toString\<close> on an integer: its decimal digits, with a sign.\<close>

definition digit_char :: "int \<Rightarrow> char" where
  "digit_char n = char_of (48 + n)"

function toString_nonneg :: "int \<Rightarrow> string" where
  "toString_nonneg n =
     (if n < 10 then [digit_char n]
      else toString_nonneg (n div 10) @ [digit_char (n mod 10)])"
  by pat_completeness auto
termination
  by (relation "measure nat") auto

declare toString_nonneg.simps [simp del]

definition toString :: "int \<Rightarrow> string" where
  "toString n = (if n < 0 then CHR ''-'' # toString_nonneg (- n) else toString_nonneg n)"

definition padStart :: "nat \<Rightarrow> char \<Rightarrow> string \<Rightarrow> string" where
  "padStart n c s = replicate (n - length s) c @ s"

definition otp_of_hash :: "int list \<Rightarrow> string" where
  "otp_of_hash hash =
     (let offset = nat (last hash AND 15);
          code = (((hash ! offset) AND 127) * 16777216) OR
                 (((hash ! (offset + 1)) AND 255) * 65536) OR
                 (((hash ! (offset + 2)) AND 255) * 256) OR
                 ((hash ! (offset + 3)) AND 255)
      in padStart 6 (CHR ''0'') (toString (code mod 1000000)))"

fun check_steps :: "int list \<Rightarrow> string \<Rightarrow> int list \<Rightarrow> js_error + bool" where
  "check_steps key token [] = Inr False"
| "check_steps key token (time # ts) =
     (case timeBuffer time of
        Inl e \<Rightarrow> Inl e
      | Inr tb \<Rightarrow>
          (if otp_of_hash (hmac_sha1 key tb) = token then Inr True
           else check_steps key token ts))"

text \<open>
  \<open>verifyTOTPToken secret token window\<close>, with the clock reading \<open>Date.now()\<close> as the
  argument \<open>now\<close>. The result is \<open>Inl\<close> when the call throws.
\<close>

definition verifyTOTPToken :: "string \<Rightarrow> string \<Rightarrow> int \<Rightarrow> int \<Rightarrow> js_error + bool" where
  "verifyTOTPToken secret token window now =
     (let timeStep = now div 30000
      in check_steps (secretBuffer secret) token (map (\<lambda>i. timeStep + i) [- window..window]))"

text \<open>
  The HOTP value as the specification words it (RFC 4226): HMAC-SHA1 over the 8-byte
  big-endian counter, dynamic truncation (the 31 low bits of the four bytes at the
  offset given by the low 4 bits of byte 19), reduced modulo \<open>10 ^ 6\<close> and written
  with exactly six decimal digits.
\<close>

definition counter_bytes :: "int \<Rightarrow> int list" where
  "counter_bytes c = map (\<lambda>k. c div 256 ^ k mod 256) [7, 6, 5, 4, 3, 2, 1, 0]"

definition dynamic_truncation :: "int list \<Rightarrow> int" where
  "dynamic_truncation h = be32 (drop (nat (h ! 19 mod 16)) h) mod 2147483648"

fun fixed_digits :: "nat \<Rightarrow> int \<Rightarrow> string" where
  "fixed_digits 0 n = []"
| "fixed_digits (Suc k) n = fixed_digits k (n div 10) @ [digit_char (n mod 10)]"

definition hotp :: "int list \<Rightarrow> int \<Rightarrow> string" where
  "hotp key c = fixed_digits 6 (dynamic_truncation (hmac_sha1 key (counter_bytes c)) mod 1000000)"

definition is_byte :: "int \<Rightarrow> bool" where
  "is_byte b = (0 \<le> b \<and> b < 256)"

section \<open>The activity log (\<open>userActivity\<close>)\<close>

text \<open>
  The persistent store is an external collaborator. Its tables are lists of rows in
  insertion order, a row's primary key is its position, and its operations are modelled
  as succeeding; the one query whose rejection a property is about (the history query of
  \<open>detectSuspiciousLogin\<close>) is an explicit argument. One clock reading \<open>now\<close> stands
  for every \<open>new Date()\<close> of a call. The \<open>metadata\<close> column is JSON; the model gives
  it the shapes the services write and cast it to.
\<close>

record backup_code =
  bc_code :: string
  bc_used :: bool
  bc_createdAt :: int

datatype metadata =
    BackupCodesGenerated nat int "backup_code list"
  | BackupCodeUsed int nat
  | SessionCreated "string option" "string option"
  | SessionEnded string int int
  | SuspiciousLogin "string list" string string int
  | SecurityPolicyEnforced "string list" "string list" int int int int
  | TwoFactorEnabled int string
  | TwoFactorEnableFailed string int string
  | ProfileSync "string list" bool "string option" "string list" int
  | NoMetadata

record user_activity =
  ua_userId :: string
  ua_activity :: string
  ua_sessionId :: "string option"
  ua_metadata :: metadata
  ua_createdAt :: int

definition logSecurityEvent ::
  "string \<Rightarrow> string \<Rightarrow> metadata \<Rightarrow> int \<Rightarrow> user_activity list \<Rightarrow> user_activity list" where
  "logSecurityEvent userId event meta now acts =
     acts @ [\<lparr>ua_userId = userId, ua_activity = event, ua_sessionId = None,
              ua_metadata = meta, ua_createdAt = now\<rparr>]"

text \<open>
  \<open>findFirst\<close> with \<open>orderBy: { createdAt: 'desc' }\<close>: the position of the matching row
  with the greatest \<open>createdAt\<close> (the later row where two are equal).
\<close>

fun latest_from ::
  "(user_activity \<Rightarrow> bool) \<Rightarrow> user_activity list \<Rightarrow> nat \<Rightarrow> (nat \<times> int) option
     \<Rightarrow> (nat \<times> int) option" where
  "latest_from P [] i best = best"
| "latest_from P (a # as) i best =
     latest_from P as (Suc i)
       (if P a \<and> (case best of None \<Rightarrow> True | Some (_, t) \<Rightarrow> t \<le> ua_createdAt a)
        then Some (i, ua_createdAt a) else best)"

definition findFirstLatest :: "(user_activity \<Rightarrow> bool) \<Rightarrow> user_activity list \<Rightarrow> nat option" where
  "findFirstLatest P acts = map_option fst (latest_from P acts 0 None)"

section \<open>Backup code manager\<close>

text \<open>
  \<open>hashBackupCode\<close> is SHA-256 of Node's \<open>crypto\<close>, in hexadecimal; it is the
  parameter \<open>hashBackupCode\<close> of the functions that use it.
\<close>

definition storeBackupCodes ::
  "(string \<Rightarrow> string) \<Rightarrow> string \<Rightarrow> string list \<Rightarrow> int \<Rightarrow> user_activity list
     \<Rightarrow> user_activity list" where
  "storeBackupCodes hashBackupCode userId codes now acts =
     logSecurityEvent userId ''backup_codes_generated''
       (BackupCodesGenerated (length codes) now
          (map (\<lambda>c. \<lparr>bc_code = hashBackupCode c, bc_used = False, bc_createdAt = now\<rparr>) codes))
       now acts"

definition is_backup_row :: "string \<Rightarrow> user_activity \<Rightarrow> bool" where
  "is_backup_row userId a =
     (ua_userId a = userId \<and> ua_activity a = ''backup_codes_generated'')"

text \<open>
  \<open>storedCodes.find((c) => c.code === hashedCode && !c.used)\<close> followed by
  \<open>matchingCode.used = true\<close>: the first unused entry with that hash is marked.
\<close>

fun mark_first :: "string \<Rightarrow> backup_code list \<Rightarrow> backup_code list option" where
  "mark_first h [] = None"
| "mark_first h (c # cs) =
     (if bc_code c = h \<and> \<not> bc_used c then Some (c\<lparr>bc_used := True\<rparr> # cs)
      else map_option ((#) c) (mark_first h cs))"

definition verifyBackupCode ::
  "(string \<Rightarrow> string) \<Rightarrow> string \<Rightarrow> string \<Rightarrow> int \<Rightarrow> user_activity list
     \<Rightarrow> bool \<times> user_activity list" where
  "verifyBackupCode hashBackupCode userId code now acts =
     (case findFirstLatest (is_backup_row userId) acts of
        None \<Rightarrow> (False, acts)
      | Some i \<Rightarrow>
          (case ua_metadata (acts ! i) of
             BackupCodesGenerated n g storedCodes \<Rightarrow>
               (case mark_first (hashBackupCode code) storedCodes of
                  None \<Rightarrow> (False, acts)
                | Some storedCodes' \<Rightarrow>
                    (True,
                     logSecurityEvent userId ''backup_code_used''
                       (BackupCodeUsed now (length (filter (\<lambda>c. \<not> bc_used c) storedCodes')))
                       now
                       (acts[i := (acts ! i)\<lparr>ua_metadata :=
                                   BackupCodesGenerated n g storedCodes'\<rparr>])))
           | _ \<Rightarrow> (False, acts)))"

text \<open>The codes a principal has stored: those of its latest generation event.\<close>

definition stored_codes :: "string \<Rightarrow> user_activity list \<Rightarrow> backup_code list option" where
  "stored_codes userId acts =
     (case findFirstLatest (is_backup_row userId) acts of
        None \<Rightarrow> None
      | Some i \<Rightarrow>
          (case ua_metadata (acts ! i) of
             BackupCodesGenerated n g cs \<Rightarrow> Some cs
           | _ \<Rightarrow> None))"

text \<open>A run of \<open>verify\<close> calls: principal, candidate and clock reading of each.\<close>

fun verify_calls ::
  "(string \<Rightarrow> string) \<Rightarrow> (string \<times> string \<times> int) list \<Rightarrow> user_activity list
     \<Rightarrow> user_activity list" where
  "verify_calls hashBackupCode [] acts = acts"
| "verify_calls hashBackupCode ((u, c, t) # calls) acts =
     verify_calls hashBackupCode calls (snd (verifyBackupCode hashBackupCode u c t acts))"

definition no_unused_match :: "string \<Rightarrow> backup_code list \<Rightarrow> bool" where
  "no_unused_match h cs = (\<not> (\<exists>c \<in> set cs. bc_code c = h \<and> \<not> bc_used c))"

definition used_grows :: "backup_code list \<Rightarrow> backup_code list \<Rightarrow> bool" where
  "used_grows cs cs' =
     list_all2 (\<lambda>a b. bc_code a = bc_code b \<and> (bc_used a \<longrightarrow> bc_used b)) cs cs'"

definition spent :: "(string \<Rightarrow> string) \<Rightarrow> string \<Rightarrow> string \<Rightarrow> user_activity list \<Rightarrow> bool" where
  "spent H u c acts =
     (case stored_codes u acts of None \<Rightarrow> True | Some cs \<Rightarrow> no_unused_match (H c) cs)"

section \<open>Suspicious login detector\<close>

datatype risk_level = Low | Medium | High

record suspicious_login_result =
  isSuspicious :: bool
  factors :: "string list"
  riskLevel :: risk_level

text \<open>
  \<open>xs.filter(Boolean)\<close> and \<open>.filter((meta) => meta?.ipAddress)\<close> on optional strings:
  \<open>null\<close>, \<open>undefined\<close> and the empty string are dropped.
\<close>

fun truthy_strings :: "string option list \<Rightarrow> string list" where
  "truthy_strings [] = []"
| "truthy_strings (None # xs) = truthy_strings xs"
| "truthy_strings (Some s # xs) = (if s = [] then truthy_strings xs else s # truthy_strings xs)"

fun meta_ipAddress :: "metadata \<Rightarrow> string option" where
  "meta_ipAddress (SessionCreated ip ua) = ip"
| "meta_ipAddress (SuspiciousLogin fs ip ua t) = Some ip"
| "meta_ipAddress (TwoFactorEnabled t ip) = Some ip"
| "meta_ipAddress (TwoFactorEnableFailed e t ip) = Some ip"
| "meta_ipAddress _ = None"

fun meta_userAgent :: "metadata \<Rightarrow> string option" where
  "meta_userAgent (SessionCreated ip ua) = ua"
| "meta_userAgent (SuspiciousLogin fs ip ua t) = Some ua"
| "meta_userAgent (TwoFactorEnabled t ip) = Some ''unknown''"
| "meta_userAgent _ = None"

text \<open>
  The history query of the detector on a working store: the principal's
  \<open>session_created\<close> rows of the last 7 days, latest first, at most 10.
\<close>

definition recentLoginsQuery :: "string \<Rightarrow> int \<Rightarrow> user_activity list \<Rightarrow> user_activity list" where
  "recentLoginsQuery userId now acts =
     take 10 (sort_key (\<lambda>a. - ua_createdAt a)
       (filter (\<lambda>a. ua_userId a = userId \<and> ua_activity a = ''session_created'' \<and>
                     now - 7 * 24 * 60 * 60 * 1000 \<le> ua_createdAt a) acts))"

text \<open>
  \<open>detectSuspiciousLogin\<close>. The argument \<open>findMany\<close> is the outcome of the history
  query: \<open>Inl\<close> when \<open>prisma.userActivity.findMany\<close> rejects, which is the only
  statement of the \<open>try\<close> block that can throw (\<open>logSecurityEvent\<close> catches its own
  errors).
\<close>

definition detectSuspiciousLogin ::
  "js_error + user_activity list \<Rightarrow> string \<Rightarrow> string \<Rightarrow> string \<Rightarrow> int \<Rightarrow> user_activity list
     \<Rightarrow> suspicious_login_result \<times> user_activity list" where
  "detectSuspiciousLogin findMany userId ipAddress userAgent now acts =
     (case findMany of
        Inl error \<Rightarrow> (\<lparr>isSuspicious = False, factors = [], riskLevel = Low\<rparr>, acts)
      | Inr recentLogins \<Rightarrow>
          (let knownIPs = truthy_strings (map (\<lambda>login. meta_ipAddress (ua_metadata login)) recentLogins);
               newIp = (if length knownIPs > 0 \<and> ipAddress \<notin> set knownIPs
                        then [''new_ip_address''] else []);
               knownUserAgents =
                 truthy_strings (map (\<lambda>login. meta_userAgent (ua_metadata login)) recentLogins);
               newAgent = (if length knownUserAgents > 0 \<and> userAgent \<notin> set knownUserAgents
                           then [''new_user_agent''] else []);
               recentAttempts =
                 filter (\<lambda>login. ua_createdAt login > now - 60 * 60 * 1000) recentLogins;
               rapid = (if length recentAttempts > 5 then [''rapid_login_attempts''] else []);
               suspiciousFactors = newIp @ newAgent @ rapid;
               suspicious = (length suspiciousFactors > 0)
           in (\<lparr>isSuspicious = suspicious, factors = suspiciousFactors,
                riskLevel = (if length suspiciousFactors \<ge> 2 then High else Medium)\<rparr>,
               if suspicious
               then logSecurityEvent userId ''suspicious_login''
                      (SuspiciousLogin suspiciousFactors ipAddress userAgent now) now acts
               else acts)))"

section \<open>Session registry and security policy engine\<close>

record user_session =
  s_token :: string
  s_userId :: string
  s_expiresAt :: int
  s_createdAt :: int
  s_lastActiveAt :: int
  s_ipAddress :: "string option"
  s_userAgent :: "string option"
  s_isActive :: bool

record db =
  sessions :: "user_session list"
  activities :: "user_activity list"

definition logSessionActivity ::
  "string \<Rightarrow> string \<Rightarrow> string \<Rightarrow> metadata \<Rightarrow> int \<Rightarrow> user_activity list \<Rightarrow> user_activity list" where
  "logSessionActivity userId sessionId activity meta now acts =
     acts @ [\<lparr>ua_userId = userId, ua_activity = activity, ua_sessionId = Some sessionId,
              ua_metadata = meta, ua_createdAt = now\<rparr>]"

text \<open>
  \<open>endSession\<close>: \<open>findUnique\<close> by token, return when there is no such session, else
  \<open>update\<close> by token and log \<open>session_ended\<close>. The source does not look at
  \<open>isActive\<close>.
\<close>

definition mark_ended :: "string \<Rightarrow> int \<Rightarrow> user_session \<Rightarrow> user_session" where
  "mark_ended sessionId now s =
     (if s_token s = sessionId then s\<lparr>s_isActive := False, s_lastActiveAt := now\<rparr> else s)"

definition endSession :: "string \<Rightarrow> string \<Rightarrow> int \<Rightarrow> db \<Rightarrow> db" where
  "endSession sessionId reason now d =
     (case find (\<lambda>s. s_token s = sessionId) (sessions d) of
        None \<Rightarrow> d
      | Some session \<Rightarrow>
          d\<lparr>sessions := map (mark_ended sessionId now) (sessions d),
             activities :=
               logSessionActivity (s_userId session) sessionId ''session_ended''
                 (SessionEnded reason (now - s_createdAt session) now) now (activities d)\<rparr>)"

definition getActiveSessions :: "string \<Rightarrow> int \<Rightarrow> db \<Rightarrow> user_session list" where
  "getActiveSessions userId now d =
     sort_key (\<lambda>s. - s_lastActiveAt s)
       (filter (\<lambda>s. s_userId s = userId \<and> s_isActive s \<and> s_expiresAt s > now) (sessions d))"

record session_security_config =
  maxConcurrentSessions :: int
  sessionTimeoutMinutes :: int
  inactiveSessionTimeoutDays :: int
  requireReauthenticationHours :: int
  suspiciousLoginThreshold :: int
  maxLoginAttemptsPerHour :: int
  sessionCleanupIntervalHours :: int

text \<open>\<open>defaultSecurityConfig.session\<close> when no environment variable overrides it.\<close>

definition defaultSessionConfig :: session_security_config where
  "defaultSessionConfig =
     \<lparr>maxConcurrentSessions = 5, sessionTimeoutMinutes = 1440,
      inactiveSessionTimeoutDays = 30, requireReauthenticationHours = 168,
      suspiciousLoginThreshold = 3, maxLoginAttemptsPerHour = 10,
      sessionCleanupIntervalHours = 24\<rparr>"

record security_policy_result =
  violations :: "string list"
  actions :: "string list"
  actionsPerformed :: bool
  remainingSessions :: int
  totalSessions :: int
  revokedSessions :: int

text \<open>\<open>String.prototype.includes\<close>.\<close>

definition includes_str :: "string \<Rightarrow> string \<Rightarrow> bool" where
  "includes_str s p = list_ex (\<lambda>i. take (length p) (drop i s) = p) [0..<Suc (length s)]"

definition botAgent :: "string \<Rightarrow> bool" where
  "botAgent ua = (includes_str ua ''bot'' \<or> includes_str ua ''crawler'' \<or> includes_str ua ''spider'')"

text \<open>The \<open>for (const session of ...) await this.endSession(session.token, reason)\<close> loops.\<close>

definition endSessions :: "string \<Rightarrow> int \<Rightarrow> user_session list \<Rightarrow> db \<Rightarrow> db" where
  "endSessions reason now ss d = fold (\<lambda>s. endSession (s_token s) reason now) ss d"

text \<open>
  \<open>enforceSecurityPolicies\<close>. \<open>Array.prototype.sort\<close> sorts \<open>activeSessions\<close> in place
  (and is stable), so the later checks run over the sorted array when the session limit
  is exceeded; they run over the sessions fetched at the start, ended or not.
\<close>

definition enforceSecurityPolicies ::
  "session_security_config \<Rightarrow> string \<Rightarrow> int \<Rightarrow> db \<Rightarrow> security_policy_result \<times> db" where
  "enforceSecurityPolicies cfg userId now d =
     (let fetched = getActiveSessions userId now d;
          total = int (length fetched);
          maxSessions = maxConcurrentSessions cfg;
          tooMany = (total > maxSessions);
          activeSessions = (if tooMany then sort_key s_lastActiveAt fetched else fetched);
          oldestSessions = (if tooMany then take (nat (total - maxSessions)) activeSessions else []);
          d1 = endSessions ''policy_violation_concurrent_limit'' now oldestSessions d;
          ipAddresses = remdups (truthy_strings (map s_ipAddress activeSessions));
          staleThreshold = inactiveSessionTimeoutDays cfg * 24 * 60 * 60 * 1000;
          staleSessions = filter (\<lambda>s. now - s_lastActiveAt s > staleThreshold) activeSessions;
          d2 = endSessions ''policy_violation_stale'' now staleSessions d1;
          suspiciousAgents = filter botAgent (truthy_strings (map s_userAgent activeSessions));
          reauthThreshold = requireReauthenticationHours cfg * 60 * 60 * 1000;
          oldAuthSessions = filter (\<lambda>s. now - s_createdAt s > reauthThreshold) activeSessions;
          vs = (if tooMany then [''too_many_sessions''] else []) @
               (if length ipAddresses > 3 then [''multiple_locations''] else []) @
               (if length staleSessions > 0 then [''stale_sessions''] else []) @
               (if length suspiciousAgents > 0 then [''suspicious_user_agents''] else []) @
               (if length oldAuthSessions > 0 then [''requires_reauthentication''] else []);
          acs = (if tooMany
                 then [''Revoked '' @ toString (total - maxSessions) @ '' oldest sessions'']
                 else []) @
                (if length ipAddresses > 3
                 then [''Detected sessions from '' @ toString (int (length ipAddresses)) @
                       '' different locations'']
                 else []) @
                (if length staleSessions > 0
                 then [''Revoked '' @ toString (int (length staleSessions)) @ '' stale sessions'']
                 else []) @
                (if length suspiciousAgents > 0
                 then [''Detected '' @ toString (int (length suspiciousAgents)) @
                       '' suspicious user agents'']
                 else []) @
                (if length oldAuthSessions > 0
                 then [toString (int (length oldAuthSessions)) @
                       '' sessions require re-authentication'']
                 else []);
          revoked = int (length oldestSessions) + int (length staleSessions);
          d3 = (if length vs > 0
                then d2\<lparr>activities :=
                       logSessionActivity userId [] ''security_policy_enforced''
                         (SecurityPolicyEnforced vs acs now revoked total (total - revoked))
                         now (activities d2)\<rparr>
                else d2)
      in (\<lparr>violations = vs, actions = acs, actionsPerformed = (length vs > 0),
           remainingSessions = total - revoked, totalSessions = total,
           revokedSessions = revoked\<rparr>, d3))"

text \<open>A store with one stale session that was already ended (for claim C3).\<close>

definition ended_session_db :: db where
  "ended_session_db =
     \<lparr>sessions = [\<lparr>s_token = ''sess_1'', s_userId = ''user_123'', s_expiresAt = 90000,
                    s_createdAt = 1000, s_lastActiveAt = 2000, s_ipAddress = None,
                    s_userAgent = None, s_isActive = False\<rparr>],
      activities = []\<rparr>"

text \<open>A login history of one session from a known address and browser (for claims C5, C10).\<close>

definition known_login_history :: "user_activity list" where
  "known_login_history =
     [\<lparr>ua_userId = ''user_123'', ua_activity = ''session_created'', ua_sessionId = Some ''sess_1'',
       ua_metadata = SessionCreated (Some ''192.168.1.1'') (Some ''Mozilla/5.0''),
       ua_createdAt = 1000\<rparr>]"

definition mark_all :: "string set \<Rightarrow> int \<Rightarrow> user_session \<Rightarrow> user_session" where
  "mark_all T t s = (if s_token s \<in> T then s\<lparr>s_isActive := False, s_lastActiveAt := t\<rparr> else s)"

definition is_active_for :: "string \<Rightarrow> int \<Rightarrow> user_session \<Rightarrow> bool" where
  "is_active_for u now s = (s_userId s = u \<and> s_isActive s \<and> s_expiresAt s > now)"

definition policy_sessions :: "session_security_config \<Rightarrow> string \<Rightarrow> int \<Rightarrow> db \<Rightarrow> user_session list" where
  "policy_sessions cfg u now d =
     (if int (length (getActiveSessions u now d)) > maxConcurrentSessions cfg
      then sort_key s_lastActiveAt (getActiveSessions u now d)
      else getActiveSessions u now d)"

definition policy_oldest :: "session_security_config \<Rightarrow> string \<Rightarrow> int \<Rightarrow> db \<Rightarrow> user_session list" where
  "policy_oldest cfg u now d =
     (if int (length (getActiveSessions u now d)) > maxConcurrentSessions cfg
      then take (nat (int (length (getActiveSessions u now d)) - maxConcurrentSessions cfg))
             (sort_key s_lastActiveAt (getActiveSessions u now d))
      else [])"

definition is_stale :: "session_security_config \<Rightarrow> int \<Rightarrow> user_session \<Rightarrow> bool" where
  "is_stale cfg now s =
     (now - s_lastActiveAt s > inactiveSessionTimeoutDays cfg * 24 * 60 * 60 * 1000)"

definition needs_reauth :: "session_security_config \<Rightarrow> int \<Rightarrow> user_session \<Rightarrow> bool" where
  "needs_reauth cfg now s =
     (now - s_createdAt s > requireReauthenticationHours cfg * 60 * 60 * 1000)"

definition policy_stale :: "session_security_config \<Rightarrow> string \<Rightarrow> int \<Rightarrow> db \<Rightarrow> user_session list" where
  "policy_stale cfg u now d = filter (is_stale cfg now) (policy_sessions cfg u now d)"

definition policy_violations :: "session_security_config \<Rightarrow> string \<Rightarrow> int \<Rightarrow> db \<Rightarrow> string list" where
  "policy_violations cfg u now d =
     (if int (length (getActiveSessions u now d)) > maxConcurrentSessions cfg
      then [''too_many_sessions''] else []) @
     (if length (remdups (truthy_strings (map s_ipAddress (policy_sessions cfg u now d)))) > 3
      then [''multiple_locations''] else []) @
     (if length (policy_stale cfg u now d) > 0 then [''stale_sessions''] else []) @
     (if length (filter botAgent (truthy_strings (map s_userAgent (policy_sessions cfg u now d)))) > 0
      then [''suspicious_user_agents''] else []) @
     (if length (filter (needs_reauth cfg now) (policy_sessions cfg u now d)) > 0
      then [''requires_reauthentication''] else [])"

text \<open>
  No clock-dependent threshold is crossed between the readings \<open>now\<close> and \<open>now'\<close>: for
  the principal's sessions that have not been ended, expiry, staleness and the
  re-authentication age read the same at both.
\<close>

definition no_threshold_crossing ::
  "session_security_config \<Rightarrow> string \<Rightarrow> int \<Rightarrow> int \<Rightarrow> db \<Rightarrow> bool" where
  "no_threshold_crossing cfg u now now' d =
     list_all (\<lambda>s. s_userId s = u \<and> s_isActive s \<longrightarrow>
                 ((s_expiresAt s > now) = (s_expiresAt s > now')) \<and>
                 (is_stale cfg now s = is_stale cfg now' s) \<and>
                 (needs_reauth cfg now s = needs_reauth cfg now' s))
       (sessions d)"

text \<open>
  Six active sessions of one principal with distinct \<open>lastActiveAt\<close>, at the clock reading
  4000000000; the two oldest have been inactive for more than 30 days.
\<close>

definition session_at :: "string \<Rightarrow> int \<Rightarrow> user_session" where
  "session_at tok t =
     \<lparr>s_token = tok, s_userId = ''user_123'', s_expiresAt = 5000000000, s_createdAt = t,
      s_lastActiveAt = t, s_ipAddress = Some ''192.168.1.1'', s_userAgent = Some ''Mozilla/5.0'',
      s_isActive = True\<rparr>"

definition six_sessions_db :: db where
  "six_sessions_db =
     \<lparr>sessions = [session_at ''sess_1'' 3999500000, session_at ''sess_2'' 3999400000,
                   session_at ''sess_3'' 3999300000, session_at ''sess_4'' 3999200000,
                   session_at ''sess_5'' 1100000000, session_at ''sess_6'' 1000000000],
      activities = []\<rparr>"

text \<open>The same store with no stale session.\<close>

definition fresh_sessions_db :: db where
  "fresh_sessions_db =
     \<lparr>sessions = [session_at ''sess_1'' 3999500000, session_at ''sess_2'' 3999400000,
                   session_at ''sess_3'' 3999300000, session_at ''sess_4'' 3999200000,
                   session_at ''sess_5'' 3999100000, session_at ''sess_6'' 3999000000],
      activities = []\<rparr>"

section \<open>Identity provider records and local principals\<close>

text \<open>
  The part of a Clerk user the services read: the first email address and whether it is
  verified, the names, the image, the two-factor flag, \<open>publicMetadata.role\<close>,
  \<open>updatedAt\<close>, and of \<open>privateMetadata\<close> the TOTP secret, the
  \<open>backupCodesGenerated\<close> mark and the \<open>profile\<close> and \<open>preferences\<close> objects (an
  absent object reads as one with no key). A field that can be \<open>null\<close> or absent is an
  \<open>option\<close>. The values of \<open>profile\<close> are read at the types the source casts them to.
  The \<open>preferences\<close> object is kept as the list of its keys with their values, since
  \<open>syncProfileData\<close> counts its keys: a value is \<open>null\<close>, a boolean, a number (an
  integer here) or a string, and reading a key the object does not have gives
  \<open>undefined\<close>, the \<open>None\<close> of \<open>map_of\<close>.
\<close>

datatype js_value = JNull | JBool bool | JNumber int | JString string

record clerk_profile_data =
  pd_bio :: "string option"
  pd_location :: "string option"
  pd_website :: "string option"
  pd_writingGenres :: "string list option"
  pd_experienceLevel :: "string option"

record clerk_user =
  cu_emailAddress :: "string option"
  cu_emailVerified :: bool
  cu_firstName :: "string option"
  cu_lastName :: "string option"
  cu_imageUrl :: "string option"
  cu_twoFactorEnabled :: bool
  cu_role :: "string option"
  cu_updatedAt :: int
  cu_totpSecret :: "string option"
  cu_backupCodesGenerated :: bool
  cu_profile :: clerk_profile_data
  cu_preferences :: "(string \<times> js_value) list"

record user_profile =
  p_bio :: "string option"
  p_location :: "string option"
  p_website :: "string option"
  p_writingGenres :: "string list"
  p_experienceLevel :: "string option"
  p_updatedAt :: int

record user_preferences =
  pr_theme :: string
  pr_language :: string
  pr_timezone :: string
  pr_emailNotifications :: bool
  pr_marketingEmails :: bool
  pr_weeklyDigest :: bool
  pr_autoSave :: bool
  pr_autoSaveInterval :: int
  pr_updatedAt :: int

record db_user =
  u_email :: string
  u_emailVerified :: bool
  u_firstName :: "string option"
  u_lastName :: "string option"
  u_imageUrl :: "string option"
  u_role :: string
  u_status :: string
  u_twoFactorEnabled :: bool
  u_updatedAt :: int
  u_profile :: "user_profile option"
  u_preferences :: "user_preferences option"

text \<open>
  The identity provider's users and the local \<open>User\<close> table, both keyed by the Clerk
  id, and the activity log.
\<close>

record world =
  clerk_users :: "string \<rightharpoonup> clerk_user"
  db_users :: "string \<rightharpoonup> db_user"
  activity_log :: "user_activity list"

text \<open>\<open>x || ''\<close>, \<open>x || null\<close> and \<open>x || d\<close> on an optional string.\<close>

fun or_empty :: "string option \<Rightarrow> string" where
  "or_empty None = []"
| "or_empty (Some s) = s"

fun or_null :: "string option \<Rightarrow> string option" where
  "or_null None = None"
| "or_null (Some s) = (if s = [] then None else Some s)"

fun or_default :: "string \<Rightarrow> string option \<Rightarrow> string" where
  "or_default d None = d"
| "or_default d (Some s) = (if s = [] then d else s)"

text \<open>
  \<open>x || d\<close> and \<open>x ?? d\<close> on a value read from an object: \<open>undefined\<close>, \<open>null\<close>,
  \<open>false\<close>, \<open>0\<close> and the empty string are falsy, \<open>undefined\<close> and \<open>null\<close> are nullish.
\<close>

fun truthy :: "js_value \<Rightarrow> bool" where
  "truthy JNull = False"
| "truthy (JBool b) = b"
| "truthy (JNumber n) = (n \<noteq> 0)"
| "truthy (JString s) = (s \<noteq> [])"

fun or_value :: "js_value option \<Rightarrow> js_value \<Rightarrow> js_value" where
  "or_value None d = d"
| "or_value (Some v) d = (if truthy v then v else d)"

fun nullish_or :: "js_value option \<Rightarrow> js_value \<Rightarrow> js_value" where
  "nullish_or None d = d"
| "nullish_or (Some JNull) d = d"
| "nullish_or (Some v) d = v"

text \<open>
  What Prisma accepts for a \<open>String\<close>, a \<open>Boolean\<close> and an \<open>Int\<close> column; any other
  value makes the write throw a validation error.
\<close>

fun as_String :: "js_value \<Rightarrow> string option" where
  "as_String (JString s) = Some s"
| "as_String _ = None"

fun as_Boolean :: "js_value \<Rightarrow> bool option" where
  "as_Boolean (JBool b) = Some b"
| "as_Boolean _ = None"

fun as_Int :: "js_value \<Rightarrow> int option" where
  "as_Int (JNumber n) = Some n"
| "as_Int _ = None"

section \<open>Two-factor setup: \<open>SecurityService.enableTwoFactor\<close>\<close>

record two_factor_setup =
  tf_success :: bool
  tf_message :: "string option"
  tf_secret :: "string option"
  tf_qrCode :: "string option"
  tf_backupCodes :: "string list option"

text \<open>
  The \<open>catch\<close> block of \<open>enableTwoFactor\<close>: log \<open>two_factor_enable_failed\<close> and throw
  a new error.
\<close>

definition enable_failed ::
  "string \<Rightarrow> string option \<Rightarrow> string \<Rightarrow> int \<Rightarrow> world \<Rightarrow> (js_error + two_factor_setup) \<times> world" where
  "enable_failed userId ipAddress msg now w =
     (Inl (Error ''Failed to enable two-factor authentication''),
      w\<lparr>activity_log :=
          logSecurityEvent userId ''two_factor_enable_failed''
            (TwoFactorEnableFailed msg now (or_default ''unknown'' ipAddress)) now (activity_log w)\<rparr>)"

text \<open>
  \<open>enableTwoFactor\<close>. The outputs of \<open>generateBackupCodes\<close> and \<open>generateTOTPSecret\<close>
  (random) are the arguments \<open>backupCodes\<close> and \<open>totpSecret\<close>; \<open>generateQRCodeURL\<close> and
  \<open>hashBackupCode\<close> are parameters. An unknown user takes the \<open>User not found\<close> branch,
  and \<open>prisma.user.update\<close> fails on a principal with no local row; the message logged
  for that failure is the library's, shortened to its last sentence.
\<close>

definition enableTwoFactor ::
  "(string \<Rightarrow> string) \<Rightarrow> (string \<Rightarrow> string \<Rightarrow> string) \<Rightarrow> string list \<Rightarrow> string \<Rightarrow>
   string \<Rightarrow> string option \<Rightarrow> int \<Rightarrow> world \<Rightarrow> (js_error + two_factor_setup) \<times> world" where
  "enableTwoFactor hashBackupCode generateQRCodeURL backupCodes totpSecret userId ipAddress now w =
     (case clerk_users w userId of
        None \<Rightarrow> enable_failed userId ipAddress ''User not found'' now w
      | Some user \<Rightarrow>
          if cu_twoFactorEnabled user
          then (Inr \<lparr>tf_success = False,
                      tf_message = Some ''Two-factor authentication is already enabled'',
                      tf_secret = None, tf_qrCode = None, tf_backupCodes = None\<rparr>, w)
          else
            (case db_users w userId of
               None \<Rightarrow> enable_failed userId ipAddress ''Record to update not found.'' now w
             | Some row \<Rightarrow>
                 (Inr \<lparr>tf_success = True,
                        tf_message = Some ''Two-factor authentication enabled successfully'',
                        tf_secret = Some totpSecret,
                        tf_qrCode = Some (generateQRCodeURL (or_empty (cu_emailAddress user)) totpSecret),
                        tf_backupCodes = Some backupCodes\<rparr>,
                  w\<lparr>db_users := (db_users w)(userId \<mapsto>
                                   row\<lparr>u_twoFactorEnabled := True, u_updatedAt := now\<rparr>),
                    activity_log :=
                      storeBackupCodes hashBackupCode userId backupCodes now
                        (logSecurityEvent userId ''two_factor_enabled''
                           (TwoFactorEnabled now (or_default ''unknown'' ipAddress)) now
                           (activity_log w)),
                    clerk_users := (clerk_users w)(userId \<mapsto>
                                     user\<lparr>cu_totpSecret := Some totpSecret,
                                          cu_backupCodesGenerated := True\<rparr>)\<rparr>)))"

section \<open>Profile sync engine: \<open>ProfileSyncService.syncFromClerk\<close>\<close>

record sync_options =
  force :: bool
  skipConflicts :: bool

record sync_result =
  sr_success :: bool
  sr_changes :: "string list"
  sr_conflicts :: "string list"
  sr_message :: string
  sr_error :: "string option"

definition validRole :: "clerk_user \<Rightarrow> string" where
  "validRole clerkUser =
     (case cu_role clerkUser of
        None \<Rightarrow> ''USER''
      | Some r \<Rightarrow> if r \<in> set [''USER'', ''EDITOR'', ''ADMIN''] then r else ''USER'')"

text \<open>The field comparisons of the \<open>existingUser\<close> branch, in the source's order.\<close>

definition user_field_changes :: "clerk_user \<Rightarrow> db_user \<Rightarrow> string list" where
  "user_field_changes clerkUser existingUser =
     (if u_email existingUser \<noteq> or_empty (cu_emailAddress clerkUser) then [''email''] else []) @
     (if u_firstName existingUser \<noteq> Some (or_empty (cu_firstName clerkUser))
      then [''firstName''] else []) @
     (if u_lastName existingUser \<noteq> Some (or_empty (cu_lastName clerkUser))
      then [''lastName''] else []) @
     (if u_imageUrl existingUser \<noteq> Some (or_empty (cu_imageUrl clerkUser))
      then [''imageUrl''] else []) @
     (if u_emailVerified existingUser \<noteq> cu_emailVerified clerkUser
      then [''emailVerified''] else []) @
     (if u_twoFactorEnabled existingUser \<noteq> cu_twoFactorEnabled clerkUser
      then [''twoFactorEnabled''] else []) @
     (if u_role existingUser \<noteq> validRole clerkUser then [''role''] else [])"

text \<open>
  \<open>prisma.user.update\<close> with \<open>updateData\<close>: each field that differs takes the value of
  \<open>userData\<close>, and \<open>updatedAt\<close> the clock reading.
\<close>

definition apply_user_update :: "clerk_user \<Rightarrow> int \<Rightarrow> db_user \<Rightarrow> db_user" where
  "apply_user_update clerkUser now existingUser =
     existingUser
       \<lparr>u_email := (if u_email existingUser \<noteq> or_empty (cu_emailAddress clerkUser)
                    then or_empty (cu_emailAddress clerkUser) else u_email existingUser),
        u_firstName := (if u_firstName existingUser \<noteq> Some (or_empty (cu_firstName clerkUser))
                        then Some (or_empty (cu_firstName clerkUser)) else u_firstName existingUser),
        u_lastName := (if u_lastName existingUser \<noteq> Some (or_empty (cu_lastName clerkUser))
                       then Some (or_empty (cu_lastName clerkUser)) else u_lastName existingUser),
        u_imageUrl := (if u_imageUrl existingUser \<noteq> Some (or_empty (cu_imageUrl clerkUser))
                       then Some (or_empty (cu_imageUrl clerkUser)) else u_imageUrl existingUser),
        u_emailVerified := (if u_emailVerified existingUser \<noteq> cu_emailVerified clerkUser
                            then cu_emailVerified clerkUser else u_emailVerified existingUser),
        u_twoFactorEnabled := (if u_twoFactorEnabled existingUser \<noteq> cu_twoFactorEnabled clerkUser
                               then cu_twoFactorEnabled clerkUser
                               else u_twoFactorEnabled existingUser),
        u_role := (if u_role existingUser \<noteq> validRole clerkUser
                   then validRole clerkUser else u_role existingUser),
        u_updatedAt := now\<rparr>"

definition writingGenres_of :: "clerk_profile_data \<Rightarrow> string list" where
  "writingGenres_of profileData = (case pd_writingGenres profileData of None \<Rightarrow> [] | Some g \<Rightarrow> g)"

definition profile_changes :: "clerk_profile_data \<Rightarrow> user_profile option \<Rightarrow> string list" where
  "profile_changes profileData existingProfile =
     (case existingProfile of
        None \<Rightarrow> [''profile_created'']
      | Some p \<Rightarrow>
          (if p_bio p \<noteq> or_null (pd_bio profileData) then [''profile_bio''] else []) @
          (if p_location p \<noteq> or_null (pd_location profileData) then [''profile_location''] else []) @
          (if p_website p \<noteq> or_null (pd_website profileData) then [''profile_website''] else []) @
          (if p_writingGenres p \<noteq> writingGenres_of profileData
           then [''profile_writing_genres''] else []) @
          (if p_experienceLevel p \<noteq> or_null (pd_experienceLevel profileData)
           then [''profile_experience_level''] else []))"

definition upsert_profile :: "clerk_profile_data \<Rightarrow> int \<Rightarrow> user_profile option \<Rightarrow> user_profile" where
  "upsert_profile profileData now existingProfile =
     \<lparr>p_bio = or_null (pd_bio profileData), p_location = or_null (pd_location profileData),
      p_website = or_null (pd_website profileData), p_writingGenres = writingGenres_of profileData,
      p_experienceLevel = or_null (pd_experienceLevel profileData), p_updatedAt = now\<rparr>"

text \<open>
  The comparisons of the \<open>existingPreferences\<close> branch: the stored string against
  \<open>preferencesData.theme || 'system'\<close> and so on, with \<open>!==\<close>, so a value that is not a
  string always differs.
\<close>

definition preference_changes ::
  "(string \<times> js_value) list \<Rightarrow> user_preferences option \<Rightarrow> string list" where
  "preference_changes preferencesData existingPreferences =
     (case existingPreferences of
        None \<Rightarrow> [''preferences_created'']
      | Some p \<Rightarrow>
          (if JString (pr_theme p) \<noteq> or_value (map_of preferencesData ''theme'') (JString ''system'')
           then [''preferences_theme''] else []) @
          (if JString (pr_language p) \<noteq> or_value (map_of preferencesData ''language'') (JString ''en'')
           then [''preferences_language''] else []) @
          (if JString (pr_timezone p) \<noteq> or_value (map_of preferencesData ''timezone'') (JString ''UTC'')
           then [''preferences_timezone''] else []))"

text \<open>
  The row \<open>prisma.userPreferences.upsert\<close> writes (its \<open>create\<close> and \<open>update\<close> data carry
  the same values), or \<open>None\<close> when a value has the wrong type for its column and the
  write throws.
\<close>

definition upsert_preferences :: "(string \<times> js_value) list \<Rightarrow> int \<Rightarrow> user_preferences option" where
  "upsert_preferences preferencesData now =
     Option.bind (as_String (or_value (map_of preferencesData ''theme'') (JString ''system''))) (\<lambda>theme.
     Option.bind (as_String (or_value (map_of preferencesData ''language'') (JString ''en''))) (\<lambda>language.
     Option.bind (as_String (or_value (map_of preferencesData ''timezone'') (JString ''UTC''))) (\<lambda>timezone.
     Option.bind (as_Boolean (nullish_or (map_of preferencesData ''emailNotifications'') (JBool True)))
       (\<lambda>emailNotifications.
     Option.bind (as_Boolean (nullish_or (map_of preferencesData ''marketingEmails'') (JBool False)))
       (\<lambda>marketingEmails.
     Option.bind (as_Boolean (nullish_or (map_of preferencesData ''weeklyDigest'') (JBool True)))
       (\<lambda>weeklyDigest.
     Option.bind (as_Boolean (nullish_or (map_of preferencesData ''autoSave'') (JBool True))) (\<lambda>autoSave.
     Option.bind (as_Int (or_value (map_of preferencesData ''autoSaveInterval'') (JNumber 30)))
       (\<lambda>autoSaveInterval.
       Some \<lparr>pr_theme = theme, pr_language = language, pr_timezone = timezone,
              pr_emailNotifications = emailNotifications, pr_marketingEmails = marketingEmails,
              pr_weeklyDigest = weeklyDigest, pr_autoSave = autoSave,
              pr_autoSaveInterval = autoSaveInterval, pr_updatedAt = now\<rparr>))))))))"

text \<open>
  \<open>syncProfileData\<close>: returns the changes it found and writes them unless
  \<open>skipConflicts\<close> is set without \<open>force\<close>. The profile's \<open>socialLinks\<close>, \<open>goals\<close> and
  \<open>preferences\<close> blobs are written but never compared, and are left out. The preferences
  are compared whenever the \<open>preferences\<close> object has a key
  (\<open>Object.keys(preferencesData).length > 0\<close>), whatever the key and its value. When the
  preferences write throws, the \<open>catch\<close> block returns the changes collected so far, and
  the profile write before it stays.
\<close>

definition syncProfileData ::
  "string \<Rightarrow> clerk_user \<Rightarrow> sync_options \<Rightarrow> int \<Rightarrow> world \<Rightarrow> string list \<times> world" where
  "syncProfileData clerkId clerkUser options now w =
     (case db_users w clerkId of
        None \<Rightarrow> ([], w)
      | Some user \<Rightarrow>
          (let profileData = cu_profile clerkUser;
               profileChanges = profile_changes profileData (u_profile user);
               write = (force options \<or> \<not> skipConflicts options);
               user1 = (if profileChanges \<noteq> [] \<and> write
                        then user\<lparr>u_profile := Some (upsert_profile profileData now (u_profile user))\<rparr>
                        else user);
               preferencesData = cu_preferences clerkUser;
               preferenceChanges = (if length (map fst preferencesData) > 0
                                    then preference_changes preferencesData (u_preferences user)
                                    else []);
               user2 = (if preferenceChanges \<noteq> [] \<and> write
                        then (case upsert_preferences preferencesData now of
                                Some preferences \<Rightarrow> user1\<lparr>u_preferences := Some preferences\<rparr>
                              | None \<Rightarrow> user1)
                        else user1)
           in (profileChanges @ preferenceChanges,
               w\<lparr>db_users := (db_users w)(clerkId \<mapsto> user2)\<rparr>)))"

definition logSyncActivity ::
  "string \<Rightarrow> string list \<Rightarrow> bool \<Rightarrow> string option \<Rightarrow> string list \<Rightarrow> int \<Rightarrow> user_activity list
     \<Rightarrow> user_activity list" where
  "logSyncActivity userId changes success err conflicts now acts =
     acts @ [\<lparr>ua_userId = userId, ua_activity = ''profile_sync_from_clerk'', ua_sessionId = None,
              ua_metadata = ProfileSync changes success err conflicts 0, ua_createdAt = now\<rparr>]"

definition new_user :: "clerk_user \<Rightarrow> int \<Rightarrow> db_user" where
  "new_user clerkUser now =
     \<lparr>u_email = or_empty (cu_emailAddress clerkUser), u_emailVerified = cu_emailVerified clerkUser,
      u_firstName = Some (or_empty (cu_firstName clerkUser)),
      u_lastName = Some (or_empty (cu_lastName clerkUser)),
      u_imageUrl = Some (or_empty (cu_imageUrl clerkUser)), u_role = validRole clerkUser,
      u_status = ''ACTIVE'', u_twoFactorEnabled = cu_twoFactorEnabled clerkUser, u_updatedAt = now,
      u_profile = Some \<lparr>p_bio = None, p_location = None, p_website = None, p_writingGenres = [],
                         p_experienceLevel = None, p_updatedAt = now\<rparr>,
      u_preferences = Some \<lparr>pr_theme = ''system'', pr_language = ''en'', pr_timezone = ''UTC'',
                             pr_emailNotifications = True, pr_marketingEmails = False,
                             pr_weeklyDigest = True, pr_autoSave = True, pr_autoSaveInterval = 30,
                             pr_updatedAt = now\<rparr>\<rparr>"

text \<open>
  \<open>syncFromClerk\<close>. A difference is pushed to \<open>changes\<close> whether or not it is written;
  the write of the user fields happens only with \<open>force\<close> or without a conflict.
\<close>

definition syncFromClerk :: "string \<Rightarrow> sync_options \<Rightarrow> int \<Rightarrow> world \<Rightarrow> sync_result \<times> world" where
  "syncFromClerk clerkId options now w =
     (case clerk_users w clerkId of
        None \<Rightarrow>
          (\<lparr>sr_success = False, sr_changes = [], sr_conflicts = [],
            sr_message = ''Failed to sync from Clerk'', sr_error = Some ''User not found in Clerk''\<rparr>,
           w\<lparr>activity_log :=
               logSyncActivity clerkId [] False (Some ''User not found in Clerk'') [] now
                 (activity_log w)\<rparr>)
      | Some clerkUser \<Rightarrow>
          (let (changes, conflicts, w2) =
                 (case db_users w clerkId of
                    Some existingUser \<Rightarrow>
                      (let conflicts =
                             (if \<not> force options \<and> u_updatedAt existingUser > cu_updatedAt clerkUser
                              then [''user_data_newer_in_database''] else []);
                           changes = user_field_changes clerkUser existingUser;
                           w1 = (if changes \<noteq> [] \<and> (force options \<or> conflicts = [])
                                 then w\<lparr>db_users := (db_users w)(clerkId \<mapsto>
                                          apply_user_update clerkUser now existingUser)\<rparr>
                                 else w);
                           (profileChanges, w2) = syncProfileData clerkId clerkUser options now w1
                       in (changes @ profileChanges, conflicts, w2))
                  | None \<Rightarrow>
                      ([''user_created'', ''preferences_created'', ''profile_created''], [],
                       w\<lparr>db_users := (db_users w)(clerkId \<mapsto> new_user clerkUser now)\<rparr>))
           in (\<lparr>sr_success = True, sr_changes = changes, sr_conflicts = conflicts,
                sr_message = ''Synchronized '' @ toString (int (length changes)) @
                             '' changes from Clerk'',
                sr_error = None\<rparr>,
               w2\<lparr>activity_log :=
                    logSyncActivity clerkId changes True None conflicts now (activity_log w2)\<rparr>)))"

text \<open>The local row shows no difference from the identity provider's record.\<close>

definition in_sync :: "clerk_user \<Rightarrow> db_user \<Rightarrow> bool" where
  "in_sync cu u =
     (user_field_changes cu u = [] \<and>
      profile_changes (cu_profile cu) (u_profile u) = [] \<and>
      (if length (map fst (cu_preferences cu)) > 0
       then preference_changes (cu_preferences cu) (u_preferences u) = [] else True))"

text \<open>
  A principal whose local row differs from the identity provider's record in the first
  name. In \<open>conflicting_world\<close> the local row is the newer one; in \<open>stale_local_world\<close>
  the identity provider's record is.
\<close>

definition example_clerk_user :: clerk_user where
  "example_clerk_user =
     \<lparr>cu_emailAddress = Some ''john@example.com'', cu_emailVerified = True,
      cu_firstName = Some ''John'', cu_lastName = Some ''Doe'',
      cu_imageUrl = Some ''https://example.com/avatar.jpg'', cu_twoFactorEnabled = True,
      cu_role = Some ''USER'', cu_updatedAt = 1000, cu_totpSecret = Some ''JBSWY3DPEHPK3PXP'',
      cu_backupCodesGenerated = True,
      cu_profile = \<lparr>pd_bio = None, pd_location = None, pd_website = None,
                     pd_writingGenres = None, pd_experienceLevel = None\<rparr>,
      cu_preferences = []\<rparr>"

definition example_db_user :: "int \<Rightarrow> db_user" where
  "example_db_user updated =
     \<lparr>u_email = ''john@example.com'', u_emailVerified = True, u_firstName = Some ''Jane'',
      u_lastName = Some ''Doe'', u_imageUrl = Some ''https://example.com/avatar.jpg'',
      u_role = ''USER'', u_status = ''ACTIVE'', u_twoFactorEnabled = True, u_updatedAt = updated,
      u_profile = Some \<lparr>p_bio = None, p_location = None, p_website = None, p_writingGenres = [],
                         p_experienceLevel = None, p_updatedAt = 0\<rparr>,
      u_preferences = None\<rparr>"

definition conflicting_world :: world where
  "conflicting_world =
     \<lparr>clerk_users = [''clerk_123'' \<mapsto> example_clerk_user],
      db_users = [''clerk_123'' \<mapsto> example_db_user 2000],
      activity_log = []\<rparr>"

definition stale_local_world :: world where
  "stale_local_world =
     \<lparr>clerk_users = [''clerk_123'' \<mapsto> example_clerk_user],
      db_users = [''clerk_123'' \<mapsto> example_db_user 500],
      activity_log = []\<rparr>"

definition default_options :: sync_options where
  "default_options = \<lparr>force = False, skipConflicts = False\<rparr>"

text \<open>
  A principal in step with the identity provider's record except that the provider's
  \<open>preferences\<close> object is \<open>{theme: null}\<close> while the local theme is \<open>dark\<close>.
\<close>

definition dark_preferences :: user_preferences where
  "dark_preferences =
     \<lparr>pr_theme = ''dark'', pr_language = ''en'', pr_timezone = ''UTC'',
      pr_emailNotifications = True, pr_marketingEmails = False, pr_weeklyDigest = True,
      pr_autoSave = True, pr_autoSaveInterval = 30, pr_updatedAt = 0\<rparr>"

definition null_theme_world :: world where
  "null_theme_world =
     \<lparr>clerk_users = [''clerk_123'' \<mapsto>
                      example_clerk_user\<lparr>cu_firstName := Some ''Jane'',
                                         cu_preferences := [(''theme'', JNull)]\<rparr>],
      db_users = [''clerk_123'' \<mapsto> (example_db_user 500)\<lparr>u_preferences := Some dark_preferences\<rparr>],
      activity_log = []\<rparr>"

section \<open>Properties of the TOTP engine\<close>

lemma word_bytes_length: "length (word_bytes w) = 4"
  by (simp add: word_bytes_def)

lemma word_bytes_range: "list_all is_byte (word_bytes w)"
  by (simp add: word_bytes_def is_byte_def)

lemma sha1_length: "length (sha1 m) = 20"
  by (simp add: sha1_def Let_def word_bytes_length split: prod.splits)

lemma sha1_range: "list_all is_byte (sha1 m)"
  by (simp add: sha1_def Let_def word_bytes_range split: prod.splits)

lemma hmac_sha1_length: "length (hmac_sha1 key msg) = 20"
  by (simp add: hmac_sha1_def Let_def sha1_length)

lemma hmac_sha1_range: "list_all is_byte (hmac_sha1 key msg)"
  by (simp add: hmac_sha1_def Let_def sha1_range)

lemma and_15: "(x::int) AND 15 = x mod 16"
proof -
  have "x AND mask 4 = x mod 2 ^ 4"
    by (simp add: take_bit_eq_mod flip: take_bit_eq_mask)
  then show ?thesis by (simp add: mask_eq_exp_minus_1)
qed

lemma and_127: "(x::int) AND 127 = x mod 128"
proof -
  have "x AND mask 7 = x mod 2 ^ 7"
    by (simp add: take_bit_eq_mod flip: take_bit_eq_mask)
  then show ?thesis by (simp add: mask_eq_exp_minus_1)
qed

lemma and_255: "(x::int) AND 255 = x mod 256"
proof -
  have "x AND mask 8 = x mod 2 ^ 8"
    by (simp add: take_bit_eq_mod flip: take_bit_eq_mask)
  then show ?thesis by (simp add: mask_eq_exp_minus_1)
qed

lemma or_shift_add:
  fixes hi lo :: int
  assumes "0 \<le> lo" "lo < 2 ^ n"
  shows "(hi * 2 ^ n) OR lo = hi * 2 ^ n + lo"
  using concat_bit_eq [of n lo hi] assms
  by (simp add: concat_bit_def take_bit_int_eq_self push_bit_eq_mult or.commute add.commute)

lemma truncation_code:
  fixes a b c d :: int
  assumes "is_byte a" "is_byte b" "is_byte c" "is_byte d"
  shows "((a AND 127) * 16777216) OR ((b AND 255) * 65536) OR ((c AND 255) * 256) OR (d AND 255)
         = (((a * 256 + b) * 256 + c) * 256 + d) mod 2147483648"
proof -
  from assms have r: "0 \<le> a" "a < 256" "0 \<le> b" "b < 256" "0 \<le> c" "c < 256" "0 \<le> d" "d < 256"
    by (simp_all add: is_byte_def)
  have 1: "(c * 256) OR d = c * 256 + d"
    using or_shift_add [of d 8 c] r by simp
  have 2: "(b * 65536) OR (c * 256 + d) = b * 65536 + (c * 256 + d)"
    using or_shift_add [of "c * 256 + d" 16 b] r by simp
  have a7: "0 \<le> a mod 128" "a mod 128 < 128" by simp_all
  have 3: "((a mod 128) * 16777216) OR (b * 65536 + (c * 256 + d))
           = (a mod 128) * 16777216 + (b * 65536 + (c * 256 + d))"
    using or_shift_add [of "b * 65536 + (c * 256 + d)" 24 "a mod 128"] r by simp
  have lo: "0 \<le> b * 65536 + (c * 256 + d)" "b * 65536 + (c * 256 + d) < 16777216"
    using r by simp_all
  define L where "L = b * 65536 + (c * 256 + d)"
  define R where "R = (a mod 128) * 16777216 + L"
  have e: "a * 16777216 + L = (a div 128) * 2147483648 + R"
    unfolding R_def by presburger
  have Rr: "0 \<le> R" "R < 2147483648"
    using lo a7 by (simp_all add: R_def L_def)
  have "(a * 16777216 + L) mod 2147483648 = R"
    unfolding e using Rr by (simp add: mod_pos_pos_trivial)
  then have m: "(a * 16777216 + L) mod 2147483648 = (a mod 128) * 16777216 + L"
    by (simp add: R_def)
  have f: "(((a * 256 + b) * 256 + c) * 256 + d) = a * 16777216 + L"
    by (simp add: algebra_simps L_def)
  have "(((a * 256 + b) * 256 + c) * 256 + d) mod 2147483648
             = (a mod 128) * 16777216 + (b * 65536 + (c * 256 + d))"
    unfolding f m by (simp only: L_def)
  then show ?thesis
    using r by (simp add: and_127 and_255 1 2 3)
qed


lemma digit_char_0: "digit_char 0 = CHR ''0''"
  by code_simp

lemma fixed_digits_zero: "fixed_digits k 0 = replicate k (CHR ''0'')"
  by (induction k) (simp_all add: digit_char_0 replicate_append_same)

lemma padStart_snoc: "padStart (Suc k) c (s @ [x]) = padStart k c s @ [x]"
  by (simp add: padStart_def)

lemma toString_nonneg_small: "n < 10 \<Longrightarrow> toString_nonneg n = [digit_char n]"
  by (subst toString_nonneg.simps) simp

lemma toString_nonneg_large:
  "\<not> n < 10 \<Longrightarrow> toString_nonneg n = toString_nonneg (n div 10) @ [digit_char (n mod 10)]"
  by (subst toString_nonneg.simps) simp

lemma padStart_toString:
  "0 \<le> n \<Longrightarrow> n < 10 ^ Suc k \<Longrightarrow>
     padStart (Suc k) (CHR ''0'') (toString_nonneg n) = fixed_digits (Suc k) n"
proof (induction k arbitrary: n)
  case 0
  then show ?case
    by (simp add: toString_nonneg_small padStart_def)
next
  case (Suc k)
  show ?case
  proof (cases "n < 10")
    case True
    with Suc.prems have "n div 10 = 0" "n mod 10 = n" by simp_all
    then show ?thesis
      using True
      by (simp add: toString_nonneg_small padStart_def fixed_digits_zero replicate_append_same
            digit_char_0)
  next
    case False
    have "\<And>m::int. n < 10 * m \<Longrightarrow> n div 10 < m"
      by presburger
    then have "0 \<le> n div 10" "n div 10 < 10 ^ Suc k"
      using Suc.prems by simp_all
    then have "padStart (Suc k) (CHR ''0'') (toString_nonneg (n div 10)) = fixed_digits (Suc k) (n div 10)"
      by (rule Suc.IH)
    then show ?thesis
      using False by (simp add: toString_nonneg_large padStart_snoc del: fixed_digits.simps) (simp)
  qed
qed


lemma padStart_toString6:
  assumes "0 \<le> n" "n < 1000000"
  shows "padStart 6 (CHR ''0'') (toString n) = fixed_digits 6 n"
proof -
  have "n < 10 ^ Suc 5"
    using assms by simp
  with assms have "padStart (Suc 5) (CHR ''0'') (toString_nonneg n) = fixed_digits (Suc 5) n"
    by (intro padStart_toString)
  then show ?thesis
    using assms by (simp add: toString_def)
qed

lemma drop_four:
  assumes "n + 3 < length h"
  shows "drop n h = h ! n # h ! (n + 1) # h ! (n + 2) # h ! (n + 3) # drop (n + 4) h"
proof -
  have "drop n h = h ! n # drop (Suc n) h"
    using assms by (simp add: Cons_nth_drop_Suc)
  also have "drop (Suc n) h = h ! (n + 1) # drop (Suc (Suc n)) h"
    using assms by (simp add: Cons_nth_drop_Suc)
  also have "drop (Suc (Suc n)) h = h ! (n + 2) # drop (Suc (Suc (Suc n))) h"
    using assms by (simp add: Cons_nth_drop_Suc)
  also have "drop (Suc (Suc (Suc n))) h = h ! (n + 3) # drop (n + 4) h"
    using assms Cons_nth_drop_Suc [of "n + 3" h] by (simp add: eval_nat_numeral)
  finally show ?thesis .
qed

lemma otp_of_hash_spec:
  assumes len: "length h = 20" and bytes: "list_all is_byte h"
  shows "otp_of_hash h = fixed_digits 6 (dynamic_truncation h mod 1000000)"
proof -
  define n where "n = nat (h ! 19 mod 16)"
  have n15: "n \<le> 15"
    unfolding n_def by (simp add: nat_le_iff)
  have "h \<noteq> []"
    using len by auto
  then have lasth: "last h = h ! 19"
    using len by (simp add: last_conv_nth)
  have off: "nat (last h AND 15) = n"
    by (simp add: lasth and_15 n_def)
  have b: "is_byte (h ! n)" "is_byte (h ! (n + 1))" "is_byte (h ! (n + 2))" "is_byte (h ! (n + 3))"
    using bytes len n15 by (simp_all add: list_all_length)
  have d: "be32 (drop n h) = ((h ! n * 256 + h ! (n + 1)) * 256 + h ! (n + 2)) * 256 + h ! (n + 3)"
    using drop_four [of n h] len n15 by simp
  have code: "((h ! n AND 127) * 16777216) OR ((h ! (n + 1) AND 255) * 65536) OR
              ((h ! (n + 2) AND 255) * 256) OR (h ! (n + 3) AND 255) = dynamic_truncation h"
    using truncation_code [OF b] by (simp add: dynamic_truncation_def d flip: n_def)
  have "padStart 6 (CHR ''0'') (toString (dynamic_truncation h mod 1000000))
        = fixed_digits 6 (dynamic_truncation h mod 1000000)"
    by (rule padStart_toString6) simp_all
  then show ?thesis
    unfolding otp_of_hash_def Let_def off code .
qed

lemma timeBuffer_spec:
  assumes "0 \<le> t" "t < 2147483648"
  shows "timeBuffer t = Inr (counter_bytes t)"
proof -
  have hi: "t div 4294967296 = 0"
    using assms by simp
  have z: "t div 72057594037927936 = 0" "t div 281474976710656 = 0"
    "t div 1099511627776 = 0"
    using assms by simp_all
  have lo: "toInt32 t = t"
    using assms by (simp add: toInt32_def Let_def)
  show ?thesis
    using assms
    by (simp add: timeBuffer_def writeUInt32BE_def hi lo word_bytes_def counter_bytes_def z)
qed

lemma check_steps_spec:
  assumes "\<forall>t \<in> set ts. 0 \<le> t \<and> t < 2147483648"
  shows "check_steps key token ts = Inr (\<exists>t \<in> set ts. token = hotp key t)"
  using assms
proof (induction ts)
  case Nil
  then show ?case by simp
next
  case (Cons t ts)
  have "otp_of_hash (hmac_sha1 key (counter_bytes t)) = hotp key t"
    by (simp add: otp_of_hash_spec hmac_sha1_length hmac_sha1_range hotp_def)
  then show ?case
    using Cons by (auto simp: timeBuffer_spec)
qed

lemma window_one: "[- 1..1] = [- 1, 0, 1 :: int]"
  by code_simp

lemma verifyTOTPToken_spec:
  assumes "1 \<le> now div 30000" "now div 30000 + 1 < 2147483648"
  shows "verifyTOTPToken secret token 1 now =
           Inr (\<exists>i \<in> {- 1, 0, 1}. token = hotp (secretBuffer secret) (now div 1000 div 30 + i))"
proof -
  define a where "a = now div 30000"
  have s: "now div 1000 div 30 = a"
    by (simp add: a_def div_mult2_eq [symmetric])
  have l: "map (\<lambda>i. a + i) [- 1..1] = [a - 1, a, a + 1]"
    by (simp add: window_one)
  have v: "\<forall>t \<in> set [a - 1, a, a + 1]. 0 \<le> t \<and> t < 2147483648"
    using assms by (simp add: a_def)
  have "verifyTOTPToken secret token 1 now =
          check_steps (secretBuffer secret) token [a - 1, a, a + 1]"
    by (simp only: verifyTOTPToken_def Let_def l flip: a_def)
  also have "\<dots> = Inr (\<exists>t \<in> set [a - 1, a, a + 1]. token = hotp (secretBuffer secret) t)"
    by (rule check_steps_spec [OF v])
  finally show ?thesis
    by (simp add: s)
qed


lemma later_step:
  fixes now :: int
  shows "now div 30000 + 3 \<le> (now + 91000) div 30000"
    and "(now + 91000) div 30000 \<le> now div 30000 + 4"
proof -
  have e3: "(now + 90000) div 30000 = now div 30000 + 3"
    using div_mult_self1 [of 30000 now 3] by simp
  have e4: "(now + 120000) div 30000 = now div 30000 + 4"
    using div_mult_self1 [of 30000 now 4] by simp
  have "(now + 90000) div 30000 \<le> (now + 91000) div 30000"
    by (rule zdiv_mono1) simp_all
  then show "now div 30000 + 3 \<le> (now + 91000) div 30000"
    by (simp only: e3)
  have "(now + 91000) div 30000 \<le> (now + 120000) div 30000"
    by (rule zdiv_mono1) simp_all
  then show "(now + 91000) div 30000 \<le> now div 30000 + 4"
    by (simp only: e4)
qed


text \<open>
  Claim C2, as the code has it. For a clock reading whose time step and its neighbours
  fit the counter encoding of the source (\<open>1 \<le> step\<close> and \<open>step + 5 < 2 ^ 31\<close>),
  \<open>verifyTOTPToken\<close> with window 1 returns normally, and accepts a candidate exactly
  when it is the six-digit HOTP value of one of the steps \<open>step - 1\<close>, \<open>step\<close>,
  \<open>step + 1\<close>, where \<open>step = floor (unixTime / 30)\<close>. The code computed at time
  \<open>T\<close> verifies at \<open>T\<close>. Checked 91 seconds later, none of the three steps examined
  is the step of \<open>T\<close>, and the code is accepted exactly when it coincides with the
  HOTP value of one of those later steps.
\<close>

theorem totp_window_verification:
  assumes "1 \<le> now div 30000" and "now div 30000 + 5 < 2147483648"
  shows "verifyTOTPToken secret token 1 now =
           Inr (\<exists>i \<in> {- 1, 0, 1}. token = hotp (secretBuffer secret) (now div 1000 div 30 + i))
       \<and> verifyTOTPToken secret (hotp (secretBuffer secret) (now div 1000 div 30)) 1 now = Inr True
       \<and> (\<forall>i \<in> {- 1, 0, 1}. (now + 91000) div 1000 div 30 + i \<noteq> now div 1000 div 30)
       \<and> verifyTOTPToken secret (hotp (secretBuffer secret) (now div 1000 div 30)) 1 (now + 91000) =
           Inr (\<exists>i \<in> {- 1, 0, 1}. hotp (secretBuffer secret) (now div 1000 div 30) =
                  hotp (secretBuffer secret) ((now + 91000) div 1000 div 30 + i))"
proof -
  have s: "\<And>t::int. t div 1000 div 30 = t div 30000"
    by (simp add: div_mult2_eq [symmetric])
  note later = later_step [of now]
  have r0: "1 \<le> now div 30000" "now div 30000 + 1 < 2147483648"
    using assms by simp_all
  have r1: "1 \<le> (now + 91000) div 30000" "(now + 91000) div 30000 + 1 < 2147483648"
    using assms later by linarith+
  have a: "verifyTOTPToken secret token 1 now =
           Inr (\<exists>i \<in> {- 1, 0, 1}. token = hotp (secretBuffer secret) (now div 1000 div 30 + i))"
    for token
    by (rule verifyTOTPToken_spec [OF r0])
  have b: "verifyTOTPToken secret (hotp (secretBuffer secret) (now div 1000 div 30)) 1 now = Inr True"
    by (simp add: a)
  have c: "\<forall>i \<in> {- 1, 0, 1}. (now + 91000) div 1000 div 30 + i \<noteq> now div 1000 div 30"
    using later by (simp add: s)
  have d: "verifyTOTPToken secret (hotp (secretBuffer secret) (now div 1000 div 30)) 1 (now + 91000) =
           Inr (\<exists>i \<in> {- 1, 0, 1}. hotp (secretBuffer secret) (now div 1000 div 30) =
                  hotp (secretBuffer secret) ((now + 91000) div 1000 div 30 + i))"
    by (rule verifyTOTPToken_spec [OF r1])
  from a b c d show ?thesis by blast
qed

theorem totp_window_verification_witness:
  "1 \<le> (59000::int) div 30000 \<and> (59000::int) div 30000 + 5 < 2147483648
   \<and> verifyTOTPToken ''GEZDGNBVGY3TQOJQGEZDGNBVGY3TQOJQ''
         (hotp (secretBuffer ''GEZDGNBVGY3TQOJQGEZDGNBVGY3TQOJQ'') 1) 1 59000 = Inr True"
  using totp_window_verification [of 59000 "''GEZDGNBVGY3TQOJQGEZDGNBVGY3TQOJQ''"]
  by simp

text \<open>
  Claim C2 as stated fails: six-digit values collide. For the RFC 6238 test secret, the
  code of 2026-07-23 07:08:59 UTC is also the code of the step three later, so it is
  accepted when checked 91 seconds after it was computed.
\<close>

theorem totp_collision_counterexample:
  "hotp (secretBuffer ''GEZDGNBVGY3TQOJQGEZDGNBVGY3TQOJQ'') (1784790539000 div 1000 div 30) = ''345388''
   \<and> verifyTOTPToken ''GEZDGNBVGY3TQOJQGEZDGNBVGY3TQOJQ'' ''345388'' 1 (1784790539000 + 91000) = Inr True"
  by code_simp

section \<open>Properties of the backup code manager\<close>

lemma latest_from_cong:
  "list_all2 (\<lambda>a b. P a = P b \<and> ua_createdAt a = ua_createdAt b) as bs \<Longrightarrow>
     latest_from P as i best = latest_from P bs i best"
  by (induction as bs arbitrary: i best rule: list_all2_induct)
     (auto split: option.split)

lemma latest_from_snoc:
  "\<not> P x \<Longrightarrow> latest_from P (as @ [x]) i best = latest_from P as i best"
  by (induction as arbitrary: i best) simp_all

lemma latest_from_range:
  "latest_from P as i best = Some (j, t) \<Longrightarrow>
     best = Some (j, t) \<or> (i \<le> j \<and> j < i + length as \<and> P (as ! (j - i)))"
proof (induction as arbitrary: i best)
  case Nil
  then show ?case by simp
next
  case (Cons a as)
  let ?b = "if P a \<and> (case best of None \<Rightarrow> True | Some (_, t) \<Rightarrow> t \<le> ua_createdAt a)
            then Some (i, ua_createdAt a) else best"
  from Cons.prems have "latest_from P as (Suc i) ?b = Some (j, t)" by simp
  from Cons.IH [OF this]
  consider "?b = Some (j, t)" | "Suc i \<le> j" "j < Suc i + length as" "P (as ! (j - Suc i))"
    by blast
  then show ?case
  proof cases
    case 1
    then show ?thesis by (auto split: if_splits)
  next
    case 2
    then have "(a # as) ! (j - i) = as ! (j - Suc i)"
      by (simp add: nth_Cons') 
    with 2 show ?thesis by simp
  qed
qed

lemma findFirstLatest_Some:
  "findFirstLatest P acts = Some j \<Longrightarrow> j < length acts \<and> P (acts ! j)"
  unfolding findFirstLatest_def using latest_from_range [of P acts 0 None j] by auto

lemma findFirstLatest_snoc:
  "\<not> P x \<Longrightarrow> findFirstLatest P (acts @ [x]) = findFirstLatest P acts"
  by (simp add: findFirstLatest_def latest_from_snoc)

lemma findFirstLatest_update:
  assumes "P r = P (acts ! k)" "ua_createdAt r = ua_createdAt (acts ! k)"
  shows "findFirstLatest P (acts[k := r]) = findFirstLatest P acts"
proof -
  show ?thesis
  proof (cases "k < length acts")
    case True
    then have "list_all2 (\<lambda>a b. P a = P b \<and> ua_createdAt a = ua_createdAt b) (acts[k := r]) acts"
      using assms by (simp add: list_all2_conv_all_nth nth_list_update)
    then show ?thesis
      by (simp add: findFirstLatest_def latest_from_cong)
  next
    case False
    then show ?thesis by (simp add: list_update_beyond)
  qed
qed

lemma used_grows_refl: "used_grows cs cs"
  by (simp add: used_grows_def list_all2_refl)

lemma mark_first_None: "mark_first h cs = None \<longleftrightarrow> no_unused_match h cs"
  by (induction cs) (auto simp: no_unused_match_def)

lemma mark_first_grows: "mark_first h cs = Some cs' \<Longrightarrow> used_grows cs cs'"
  by (induction cs arbitrary: cs')
     (auto simp: used_grows_def list_all2_refl split: if_splits)

lemma mark_first_distinct:
  "distinct (map bc_code cs) \<Longrightarrow> mark_first h cs = Some cs' \<Longrightarrow>
     cs' = map (\<lambda>c. if bc_code c = h then c\<lparr>bc_used := True\<rparr> else c) cs"
proof (induction cs arbitrary: cs')
  case Nil
  then show ?case by simp
next
  case (Cons c cs)
  from Cons.prems(1) have notin: "bc_code c \<notin> bc_code ` set cs" and dist: "distinct (map bc_code cs)"
    by simp_all
  show ?case
  proof (cases "bc_code c = h \<and> \<not> bc_used c")
    case True
    with notin have "\<forall>x \<in> set cs. bc_code x \<noteq> h" by blast
    then have m: "map (\<lambda>c. if bc_code c = h then c\<lparr>bc_used := True\<rparr> else c) cs = cs"
      by (simp add: map_idI)
    from True Cons.prems(2) have "cs' = c\<lparr>bc_used := True\<rparr> # cs" by simp
    then show ?thesis
      using True by (simp add: m)
  next
    case False
    with Cons.prems(2) have "map_option ((#) c) (mark_first h cs) = Some cs'"
      by simp
    then obtain ds where ds: "mark_first h cs = Some ds" "cs' = c # ds"
      by (cases "mark_first h cs") auto
    from ds(1) have "\<not> no_unused_match h cs"
      using mark_first_None [of h cs] by simp
    then have "h \<in> bc_code ` set cs"
      unfolding no_unused_match_def by blast
    with notin have ne: "bc_code c \<noteq> h" by blast
    from Cons.IH [OF dist ds(1)] ds(2) ne show ?thesis by simp
  qed
qed

lemma no_unused_match_marked:
  "no_unused_match h (map (\<lambda>c. if bc_code c = h then c\<lparr>bc_used := True\<rparr> else c) cs)"
proof -
  have "bc_code (if bc_code x = h then x\<lparr>bc_used := True\<rparr> else x) = h \<longrightarrow>
        bc_used (if bc_code x = h then x\<lparr>bc_used := True\<rparr> else x)" for x
    by (cases "bc_code x = h") simp_all
  then show ?thesis
    unfolding no_unused_match_def set_map by blast
qed

lemma no_unused_match_grows:
  "no_unused_match h cs \<Longrightarrow> used_grows cs cs' \<Longrightarrow> no_unused_match h cs'"
proof -
  have "list_all2 (\<lambda>a b. bc_code a = bc_code b \<and> (bc_used a \<longrightarrow> bc_used b)) cs cs' \<Longrightarrow>
        \<exists>c \<in> set cs'. bc_code c = h \<and> \<not> bc_used c \<Longrightarrow>
        \<exists>c \<in> set cs. bc_code c = h \<and> \<not> bc_used c"
    by (induction rule: list_all2_induct) auto
  then show "no_unused_match h cs \<Longrightarrow> used_grows cs cs' \<Longrightarrow> no_unused_match h cs'"
    unfolding no_unused_match_def used_grows_def by blast
qed

lemma verifyBackupCode_result:
  "fst (verifyBackupCode H u c t acts) =
     (case stored_codes u acts of None \<Rightarrow> False | Some cs \<Rightarrow> mark_first (H c) cs \<noteq> None)"
  by (simp add: verifyBackupCode_def stored_codes_def split: option.splits metadata.splits)

lemma findFirstLatest_after_mark:
  assumes "ua_activity ev = ''backup_code_used''"
  shows "findFirstLatest (is_backup_row v) (acts[i := (acts ! i)\<lparr>ua_metadata := m\<rparr>] @ [ev]) =
         findFirstLatest (is_backup_row v) acts"
proof -
  have "\<not> is_backup_row v ev"
    using assms by (simp add: is_backup_row_def)
  then have "findFirstLatest (is_backup_row v) (acts[i := (acts ! i)\<lparr>ua_metadata := m\<rparr>] @ [ev]) =
             findFirstLatest (is_backup_row v) (acts[i := (acts ! i)\<lparr>ua_metadata := m\<rparr>])"
    by (rule findFirstLatest_snoc)
  also have "\<dots> = findFirstLatest (is_backup_row v) acts"
    by (rule findFirstLatest_update) (simp_all add: is_backup_row_def)
  finally show ?thesis .
qed

lemma stored_codes_after_verify:
  "stored_codes v (snd (verifyBackupCode H u c t acts)) =
     (if u = v
      then (case stored_codes v acts of
              None \<Rightarrow> None
            | Some cs \<Rightarrow> (case mark_first (H c) cs of None \<Rightarrow> Some cs | Some cs' \<Rightarrow> Some cs'))
      else stored_codes v acts)"
proof (cases "findFirstLatest (is_backup_row u) acts")
  case None
  then show ?thesis
    by (auto simp: verifyBackupCode_def stored_codes_def)
next
  case (Some i)
  then have i: "i < length acts" "is_backup_row u (acts ! i)"
    using findFirstLatest_Some by blast+
  show ?thesis
  proof (cases "\<exists>n g cs cs'. ua_metadata (acts ! i) = BackupCodesGenerated n g cs \<and>
                   mark_first (H c) cs = Some cs'")
    case False
    then have "snd (verifyBackupCode H u c t acts) = acts"
      using Some by (auto simp: verifyBackupCode_def split: metadata.splits option.splits)
    moreover have "u = v \<Longrightarrow> ?thesis"
      using False Some
      by (auto simp: verifyBackupCode_def stored_codes_def split: metadata.splits option.splits)
    ultimately show ?thesis by auto
  next
    case True
    then obtain n g cs cs' where m: "ua_metadata (acts ! i) = BackupCodesGenerated n g cs"
      "mark_first (H c) cs = Some cs'" by blast
    define ev where "ev = \<lparr>ua_userId = u, ua_activity = ''backup_code_used'', ua_sessionId = None,
       ua_metadata = BackupCodeUsed t (length (filter (\<lambda>c. \<not> bc_used c) cs')), ua_createdAt = t\<rparr>"
    define acts' where
      "acts' = acts[i := (acts ! i)\<lparr>ua_metadata := BackupCodesGenerated n g cs'\<rparr>] @ [ev]"
    have snd: "snd (verifyBackupCode H u c t acts) = acts'"
      using Some m by (simp add: verifyBackupCode_def logSecurityEvent_def acts'_def ev_def)
    have ff: "findFirstLatest (is_backup_row w) acts' = findFirstLatest (is_backup_row w) acts" for w
      unfolding acts'_def by (rule findFirstLatest_after_mark) (simp add: ev_def)
    have at_i: "acts' ! i = (acts ! i)\<lparr>ua_metadata := BackupCodesGenerated n g cs'\<rparr>"
      using i(1) by (simp add: acts'_def nth_append)
    show ?thesis
    proof (cases "u = v")
      case True
      with Some m show ?thesis
        unfolding snd by (simp add: stored_codes_def ff at_i)
    next
      case False
      have "stored_codes v acts' = stored_codes v acts"
      proof (cases "findFirstLatest (is_backup_row v) acts")
        case None
        then show ?thesis by (simp add: stored_codes_def ff)
      next
        case (Some j)
        then have j: "j < length acts" "is_backup_row v (acts ! j)"
          using findFirstLatest_Some by blast+
        with i False have "j \<noteq> i" by (auto simp: is_backup_row_def)
        with j have "acts' ! j = acts ! j"
          by (simp add: acts'_def nth_append)
        then show ?thesis
          using Some by (simp add: stored_codes_def ff)
      qed
      with False show ?thesis unfolding snd by simp
    qed
  qed
qed

lemma stored_codes_grow:
  assumes "stored_codes v acts = Some cs"
  shows "\<exists>cs'. stored_codes v (snd (verifyBackupCode H u c t acts)) = Some cs' \<and> used_grows cs cs'"
  using assms
  by (auto simp: stored_codes_after_verify used_grows_refl mark_first_grows split: option.splits)

lemma spent_verify:
  assumes "spent H u c acts"
  shows "spent H u c (snd (verifyBackupCode H u' c' t acts))"
proof (cases "stored_codes u acts")
  case None
  then show ?thesis
    by (simp add: spent_def stored_codes_after_verify)
next
  case (Some cs)
  then obtain cs' where
    "stored_codes u (snd (verifyBackupCode H u' c' t acts)) = Some cs'" "used_grows cs cs'"
    using stored_codes_grow by blast
  moreover from assms Some have "no_unused_match (H c) cs"
    by (simp add: spent_def)
  ultimately show ?thesis
    by (simp add: spent_def no_unused_match_grows)
qed

lemma spent_calls: "spent H u c acts \<Longrightarrow> spent H u c (verify_calls H calls acts)"
  by (induction calls arbitrary: acts) (auto simp: spent_verify)

lemma spent_rejects: "spent H u c acts \<Longrightarrow> fst (verifyBackupCode H u c t acts) = False"
  by (auto simp: spent_def verifyBackupCode_result mark_first_None split: option.splits)

text \<open>
  Claim C1, as the code has it. When the hashes of the principal's stored codes are
  pairwise distinct, \<open>verify\<close> with an unused matching code returns true and marks
  exactly that stored code used; after that, whatever \<open>verify\<close> calls come in between,
  \<open>verify\<close> with the same code returns false; and no \<open>verify\<close> call resets a used
  flag of any principal's stored codes.
\<close>

theorem backup_code_single_use:
  assumes "stored_codes u acts = Some cs"
    and "\<exists>x \<in> set cs. bc_code x = H c \<and> \<not> bc_used x"
    and "distinct (map bc_code cs)"
  shows "fst (verifyBackupCode H u c t acts) = True
       \<and> stored_codes u (snd (verifyBackupCode H u c t acts)) =
           Some (map (\<lambda>x. if bc_code x = H c then x\<lparr>bc_used := True\<rparr> else x) cs)
       \<and> (\<forall>calls t'. fst (verifyBackupCode H u c t'
              (verify_calls H calls (snd (verifyBackupCode H u c t acts)))) = False)
       \<and> (\<forall>v u' c' t' acts0 cs0. stored_codes v acts0 = Some cs0 \<longrightarrow>
             (\<exists>cs1. stored_codes v (snd (verifyBackupCode H u' c' t' acts0)) = Some cs1 \<and>
                    used_grows cs0 cs1))"
proof -
  from assms(2) have "\<not> no_unused_match (H c) cs"
    by (simp add: no_unused_match_def)
  then obtain cs' where m: "mark_first (H c) cs = Some cs'"
    using mark_first_None [of "H c" cs] by auto
  have cs': "cs' = map (\<lambda>x. if bc_code x = H c then x\<lparr>bc_used := True\<rparr> else x) cs"
    using mark_first_distinct [OF assms(3) m] .
  have a: "fst (verifyBackupCode H u c t acts) = True"
    using assms(1) m by (simp add: verifyBackupCode_result)
  have b: "stored_codes u (snd (verifyBackupCode H u c t acts)) = Some cs'"
    using assms(1) m by (simp add: stored_codes_after_verify)
  have "spent H u c (snd (verifyBackupCode H u c t acts))"
    unfolding spent_def b cs' by (simp add: no_unused_match_marked)
  then have c: "fst (verifyBackupCode H u c t'
              (verify_calls H calls (snd (verifyBackupCode H u c t acts)))) = False" for calls t'
    by (intro spent_rejects spent_calls)
  have d: "\<forall>v u' c' t' acts0 cs0. stored_codes v acts0 = Some cs0 \<longrightarrow>
             (\<exists>cs1. stored_codes v (snd (verifyBackupCode H u' c' t' acts0)) = Some cs1 \<and>
                    used_grows cs0 cs1)"
    using stored_codes_grow by blast
  from a b c d show ?thesis
    unfolding cs' by blast
qed

theorem backup_code_single_use_witness:
  "fst (verifyBackupCode (\<lambda>x. x) ''p'' ''AAAA1111'' 1
          (storeBackupCodes (\<lambda>x. x) ''p'' [''AAAA1111'', ''BBBB2222''] 0 [])) = True
   \<and> fst (verifyBackupCode (\<lambda>x. x) ''p'' ''AAAA1111'' 2
          (snd (verifyBackupCode (\<lambda>x. x) ''p'' ''AAAA1111'' 1
             (storeBackupCodes (\<lambda>x. x) ''p'' [''AAAA1111'', ''BBBB2222''] 0 [])))) = False"
proof -
  let ?acts = "storeBackupCodes (\<lambda>x. x) ''p'' [''AAAA1111'', ''BBBB2222''] 0 []"
  let ?cs = "[\<lparr>bc_code = ''AAAA1111'', bc_used = False, bc_createdAt = 0\<rparr>,
              \<lparr>bc_code = ''BBBB2222'', bc_used = False, bc_createdAt = 0\<rparr>]"
  have 1: "stored_codes ''p'' ?acts = Some ?cs"
    by code_simp
  have 2: "\<exists>x \<in> set ?cs. bc_code x = (\<lambda>x. x) ''AAAA1111'' \<and> \<not> bc_used x"
    by simp
  have 3: "distinct (map bc_code ?cs)"
    by simp
  from backup_code_single_use [where H = "\<lambda>x. x" and c = "''AAAA1111''" and t = 1, OF 1 2 3]
  have "fst (verifyBackupCode (\<lambda>x. x) ''p'' ''AAAA1111'' 1 ?acts) = True"
    and "\<forall>calls t'. fst (verifyBackupCode (\<lambda>x. x) ''p'' ''AAAA1111'' t'
              (verify_calls (\<lambda>x. x) calls
                 (snd (verifyBackupCode (\<lambda>x. x) ''p'' ''AAAA1111'' 1 ?acts)))) = False"
    by blast+
  from this(1) this(2) [rule_format, of 2 "[]"] show ?thesis
    by simp
qed

text \<open>
  Claim C1 as stated fails when two stored entries carry the same hash, which nothing in
  \<open>generateBackupCodes\<close> excludes: the second \<open>verify\<close> with the same code finds the
  second entry and returns true again. The hash function plays no part in it.
\<close>

theorem backup_code_duplicate_counterexample:
  "fst (verifyBackupCode (\<lambda>x. x) ''p'' ''AAAA1111'' 2
          (snd (verifyBackupCode (\<lambda>x. x) ''p'' ''AAAA1111'' 1
             (storeBackupCodes (\<lambda>x. x) ''p'' [''AAAA1111'', ''AAAA1111''] 0 [])))) = True"
  by code_simp

section \<open>Properties of the session registry and the suspicious login detector\<close>

lemma mark_ended_fields [simp]:
  "s_token (mark_ended tok t s) = s_token s"
  "s_userId (mark_ended tok t s) = s_userId s"
  "s_expiresAt (mark_ended tok t s) = s_expiresAt s"
  "s_createdAt (mark_ended tok t s) = s_createdAt s"
  "s_ipAddress (mark_ended tok t s) = s_ipAddress s"
  "s_userAgent (mark_ended tok t s) = s_userAgent s"
  "s_isActive (mark_ended tok t s) = (s_isActive s \<and> s_token s \<noteq> tok)"
  by (simp_all add: mark_ended_def)

lemma mark_ended_other: "s_token s \<noteq> tok \<Longrightarrow> mark_ended tok t s = s"
  by (simp add: mark_ended_def)

lemma sessions_endSession:
  "sessions (endSession tok r t d) = map (mark_ended tok t) (sessions d)"
proof (cases "find (\<lambda>s. s_token s = tok) (sessions d)")
  case None
  then have "\<forall>s \<in> set (sessions d). s_token s \<noteq> tok"
    by (simp add: find_None_iff)
  then have "map (mark_ended tok t) (sessions d) = sessions d"
    by (simp add: map_idI mark_ended_other)
  with None show ?thesis
    by (simp add: endSession_def)
next
  case (Some a)
  then show ?thesis
    by (simp add: endSession_def)
qed

text \<open>
  Claim C3, as the code has it. \<open>endSession\<close> changes nothing when no session has the
  token. When one has, active or already ended, it sets \<open>isActive\<close> to false, sets
  \<open>lastActiveAt\<close> to the clock reading and appends one \<open>session_ended\<close> event with the
  reason and the duration. After it no session with the token is active, and running it a
  second time leaves every \<open>isActive\<close> flag as the first run left it.
\<close>

theorem end_session_effect:
  "(find (\<lambda>s. s_token s = tok) (sessions d) = None \<longrightarrow> endSession tok reason now d = d)
   \<and> (\<forall>session. find (\<lambda>s. s_token s = tok) (sessions d) = Some session \<longrightarrow>
          sessions (endSession tok reason now d) =
            map (\<lambda>s. if s_token s = tok then s\<lparr>s_isActive := False, s_lastActiveAt := now\<rparr> else s)
                (sessions d)
        \<and> activities (endSession tok reason now d) =
            activities d @
              [\<lparr>ua_userId = s_userId session, ua_activity = ''session_ended'',
                ua_sessionId = Some tok,
                ua_metadata = SessionEnded reason (now - s_createdAt session) now,
                ua_createdAt = now\<rparr>])
   \<and> list_all (\<lambda>s. s_token s = tok \<longrightarrow> \<not> s_isActive s) (sessions (endSession tok reason now d))
   \<and> map s_isActive (sessions (endSession tok reason' now' (endSession tok reason now d))) =
       map s_isActive (sessions (endSession tok reason now d))"
proof -
  have a: "find (\<lambda>s. s_token s = tok) (sessions d) = None \<longrightarrow> endSession tok reason now d = d"
    by (simp add: endSession_def)
  have f: "mark_ended tok now = (\<lambda>s. if s_token s = tok then s\<lparr>s_isActive := False, s_lastActiveAt := now\<rparr> else s)"
    by (rule ext) (simp add: mark_ended_def)
  have b: "\<forall>session. find (\<lambda>s. s_token s = tok) (sessions d) = Some session \<longrightarrow>
          sessions (endSession tok reason now d) =
            map (\<lambda>s. if s_token s = tok then s\<lparr>s_isActive := False, s_lastActiveAt := now\<rparr> else s)
                (sessions d)
        \<and> activities (endSession tok reason now d) =
            activities d @
              [\<lparr>ua_userId = s_userId session, ua_activity = ''session_ended'',
                ua_sessionId = Some tok,
                ua_metadata = SessionEnded reason (now - s_createdAt session) now,
                ua_createdAt = now\<rparr>]"
    by (simp add: endSession_def logSessionActivity_def f)
  have c: "list_all (\<lambda>s. s_token s = tok \<longrightarrow> \<not> s_isActive s) (sessions (endSession tok reason now d))"
    by (simp add: sessions_endSession list_all_iff)
  have e: "map s_isActive (sessions (endSession tok reason' now' (endSession tok reason now d))) =
       map s_isActive (sessions (endSession tok reason now d))"
    by (simp add: sessions_endSession)
  from a b c e show ?thesis by blast
qed

theorem end_session_effect_witness:
  "sessions (endSession ''sess_1'' ''user_logout'' 5000 ended_session_db) =
     [\<lparr>s_token = ''sess_1'', s_userId = ''user_123'', s_expiresAt = 90000,
       s_createdAt = 1000, s_lastActiveAt = 5000, s_ipAddress = None,
       s_userAgent = None, s_isActive = False\<rparr>]
   \<and> endSession ''sess_2'' ''user_logout'' 5000 ended_session_db = ended_session_db"
proof -
  have 1: "find (\<lambda>s. s_token s = ''sess_1'') (sessions ended_session_db) =
           Some (hd (sessions ended_session_db))"
    by (simp add: ended_session_db_def)
  have 2: "find (\<lambda>s. s_token s = ''sess_2'') (sessions ended_session_db) = None"
    by (simp add: ended_session_db_def)
  from end_session_effect [of "''sess_1''" ended_session_db "''user_logout''" 5000] 1
  have "sessions (endSession ''sess_1'' ''user_logout'' 5000 ended_session_db) =
          map (\<lambda>s. if s_token s = ''sess_1'' then s\<lparr>s_isActive := False, s_lastActiveAt := 5000\<rparr> else s)
              (sessions ended_session_db)"
    by blast
  moreover from end_session_effect [of "''sess_2''" ended_session_db "''user_logout''" 5000] 2
  have "endSession ''sess_2'' ''user_logout'' 5000 ended_session_db = ended_session_db"
    by blast
  ultimately show ?thesis
    by (simp add: ended_session_db_def)
qed

text \<open>
  Claim C3 as stated fails on a session that was already ended: \<open>endSession\<close> appends
  another \<open>session_ended\<close> event and moves \<open>lastActiveAt\<close>.
\<close>

theorem end_session_ended_counterexample:
  "activities (endSession ''sess_1'' ''user_logout'' 5000 ended_session_db) =
     [\<lparr>ua_userId = ''user_123'', ua_activity = ''session_ended'', ua_sessionId = Some ''sess_1'',
       ua_metadata = SessionEnded ''user_logout'' 4000 5000, ua_createdAt = 5000\<rparr>]
   \<and> activities ended_session_db = []
   \<and> map s_lastActiveAt (sessions (endSession ''sess_1'' ''user_logout'' 5000 ended_session_db)) = [5000]
   \<and> map s_lastActiveAt (sessions ended_session_db) = [2000]"
  by (simp add: endSession_def ended_session_db_def logSessionActivity_def mark_ended_def)

text \<open>
  Claim C5 at the input of the repository's own test \<open>should not detect suspicious login
  for known IP\<close>: the check completes normally with no factor, and the risk level is
  \<open>medium\<close>, where the claim and the test say \<open>low\<close>.
\<close>

theorem risk_level_empty_factors:
  "fst (detectSuspiciousLogin (Inr known_login_history) ''user_123'' ''192.168.1.1''
          ''Mozilla/5.0'' 2000 known_login_history) =
     \<lparr>isSuspicious = False, factors = [], riskLevel = Medium\<rparr>"
  by (simp add: detectSuspiciousLogin_def known_login_history_def Let_def)

text \<open>
  Claim C6. A principal with no \<open>session_created\<close> event in the 7-day window is never
  flagged, whatever the address and the user agent: the detector returns
  \<open>isSuspicious = false\<close> and no factor, and logs nothing, both when the history query
  answers and when it rejects.
\<close>

theorem first_login_not_flagged:
  assumes "list_all (\<lambda>a. \<not> (ua_userId a = userId \<and> ua_activity a = ''session_created'' \<and>
                            now - 7 * 24 * 60 * 60 * 1000 \<le> ua_createdAt a)) acts"
    and "q = Inr (recentLoginsQuery userId now acts) \<or> q = Inl e"
  shows "isSuspicious (fst (detectSuspiciousLogin q userId ipAddress userAgent now acts)) = False
       \<and> factors (fst (detectSuspiciousLogin q userId ipAddress userAgent now acts)) = []
       \<and> snd (detectSuspiciousLogin q userId ipAddress userAgent now acts) = acts"
proof -
  have "filter (\<lambda>a. ua_userId a = userId \<and> ua_activity a = ''session_created'' \<and>
                    now - 7 * 24 * 60 * 60 * 1000 \<le> ua_createdAt a) acts = []"
    using assms(1) by (auto simp: filter_empty_conv list_all_iff)
  then have "recentLoginsQuery userId now acts = []"
    by (simp add: recentLoginsQuery_def)
  with assms(2) show ?thesis
    by (auto simp: detectSuspiciousLogin_def)
qed

theorem first_login_not_flagged_witness:
  "isSuspicious (fst (detectSuspiciousLogin (Inr (recentLoginsQuery ''user_456'' 2000 known_login_history))
      ''user_456'' ''10.0.0.7'' ''curl/8.0'' 2000 known_login_history)) = False
   \<and> factors (fst (detectSuspiciousLogin (Inr (recentLoginsQuery ''user_456'' 2000 known_login_history))
      ''user_456'' ''10.0.0.7'' ''curl/8.0'' 2000 known_login_history)) = []"
proof -
  have "list_all (\<lambda>a. \<not> (ua_userId a = ''user_456'' \<and> ua_activity a = ''session_created'' \<and>
                          2000 - 7 * 24 * 60 * 60 * 1000 \<le> ua_createdAt a)) known_login_history"
    by (simp add: known_login_history_def)
  from first_login_not_flagged [OF this, where e = "Error ''unused''"] show ?thesis
    by blast
qed

text \<open>
  When the history query throws, \<open>detectSuspiciousLogin\<close> does not propagate the error:
  it returns \<open>isSuspicious = false\<close>, no factor and risk level \<open>low\<close>, and logs no
  \<open>suspicious_login\<close> event. A check that completes normally with no factor returns the
  same \<open>isSuspicious\<close> and the same factors, and logs nothing either.
\<close>

lemma detect_query_failure:
  "detectSuspiciousLogin (Inl e) userId ipAddress userAgent now acts =
     (\<lparr>isSuspicious = False, factors = [], riskLevel = Low\<rparr>, acts)
   \<and> (factors (fst (detectSuspiciousLogin (Inr logins) userId ipAddress userAgent now acts)) = [] \<longrightarrow>
        isSuspicious (fst (detectSuspiciousLogin (Inr logins) userId ipAddress userAgent now acts)) =
          isSuspicious (fst (detectSuspiciousLogin (Inl e) userId ipAddress userAgent now acts))
      \<and> snd (detectSuspiciousLogin (Inr logins) userId ipAddress userAgent now acts) =
          snd (detectSuspiciousLogin (Inl e) userId ipAddress userAgent now acts))"
  by (simp add: detectSuspiciousLogin_def Let_def)

text \<open>
  Claim C10 at the input of the repository's test \<open>should not detect suspicious login for
  known IP\<close>. When the history query throws, the detector returns \<open>isSuspicious = false\<close>,
  no factor and risk level \<open>low\<close> and logs nothing, as the claim says. The check that
  completes normally on the same login, with no factor, logs nothing either but returns
  risk level \<open>medium\<close> where the test expects \<open>low\<close>, so a caller can tell the store
  failure from the clean check.
\<close>

theorem detect_failure_distinguishable:
  "detectSuspiciousLogin (Inl (Error ''Database error'')) ''user_123'' ''192.168.1.1''
      ''Mozilla/5.0'' 2000 known_login_history =
     (\<lparr>isSuspicious = False, factors = [], riskLevel = Low\<rparr>, known_login_history)
   \<and> detectSuspiciousLogin (Inr known_login_history) ''user_123'' ''192.168.1.1''
      ''Mozilla/5.0'' 2000 known_login_history =
     (\<lparr>isSuspicious = False, factors = [], riskLevel = Medium\<rparr>, known_login_history)"
  by (simp add: detectSuspiciousLogin_def known_login_history_def Let_def)

section \<open>Properties of the security policy engine\<close>

lemma mark_all_fields [simp]:
  "s_token (mark_all T t s) = s_token s"
  "s_userId (mark_all T t s) = s_userId s"
  "s_expiresAt (mark_all T t s) = s_expiresAt s"
  "s_isActive (mark_all T t s) = (s_isActive s \<and> s_token s \<notin> T)"
  by (simp_all add: mark_all_def)

lemma mark_all_other: "s_token s \<notin> T \<Longrightarrow> mark_all T t s = s"
  by (simp add: mark_all_def)

lemma mark_all_empty: "mark_all {} t = (\<lambda>s. s)"
  by (rule ext) (simp add: mark_all_def)

lemma mark_all_mark_ended:
  "mark_all T t (mark_ended tok t s) = mark_all (insert tok T) t s"
  by (cases "s_token s = tok"; cases "s_token s \<in> T") (simp_all add: mark_all_def mark_ended_def)

lemma mark_all_mark_all:
  "mark_all T t (mark_all U t s) = mark_all (U \<union> T) t s"
  by (cases "s_token s \<in> U"; cases "s_token s \<in> T") (simp_all add: mark_all_def)

lemma sessions_endSessions:
  "sessions (endSessions r t ss d) = map (mark_all (s_token ` set ss) t) (sessions d)"
proof (induction ss arbitrary: d)
  case Nil
  then show ?case by (simp add: endSessions_def mark_all_empty)
next
  case (Cons x xs)
  have "endSessions r t (x # xs) d = endSessions r t xs (endSession (s_token x) r t d)"
    by (simp add: endSessions_def)
  then show ?case
    by (simp add: Cons.IH sessions_endSession mark_all_mark_ended)
qed

lemma endSessions_Nil [simp]: "endSessions r t [] d = d"
  by (simp add: endSessions_def)

lemma getActiveSessions_alt:
  "getActiveSessions u now d =
     sort_key (\<lambda>s. - s_lastActiveAt s) (filter (is_active_for u now) (sessions d))"
proof -
  have "is_active_for u now = (\<lambda>s. s_userId s = u \<and> s_isActive s \<and> s_expiresAt s > now)"
    by (rule ext) (simp add: is_active_for_def)
  then show ?thesis
    by (simp add: getActiveSessions_def)
qed

lemma filter_active_marked:
  "filter (is_active_for u now) (map (mark_all T t) xs) =
     filter (\<lambda>s. s_token s \<notin> T) (filter (is_active_for u now) xs)"
proof (induction xs)
  case Nil
  then show ?case by simp
next
  case (Cons x xs)
  show ?case
  proof (cases "s_token x \<in> T")
    case True
    then show ?thesis
      using Cons by (simp add: is_active_for_def)
  next
    case False
    then show ?thesis
      using Cons by (simp add: mark_all_other)
  qed
qed

lemma getActiveSessions_marked:
  assumes "sessions d' = map (mark_all T t) (sessions d)"
  shows "getActiveSessions u now d' = filter (\<lambda>s. s_token s \<notin> T) (getActiveSessions u now d)"
  by (simp add: getActiveSessions_alt assms filter_active_marked filter_sort)

lemma is_stale_eq:
  "(\<lambda>s. now - s_lastActiveAt s > inactiveSessionTimeoutDays cfg * 24 * 60 * 60 * 1000) = is_stale cfg now"
  by (rule ext) (simp add: is_stale_def)

lemma needs_reauth_eq:
  "(\<lambda>s. now - s_createdAt s > requireReauthenticationHours cfg * 60 * 60 * 1000) = needs_reauth cfg now"
  by (rule ext) (simp add: needs_reauth_def)

lemma enforce_violations:
  "violations (fst (enforceSecurityPolicies cfg u now d)) = policy_violations cfg u now d"
  unfolding enforceSecurityPolicies_def Let_def is_stale_eq needs_reauth_eq
  by (simp add: policy_violations_def policy_stale_def policy_sessions_def)

lemma enforce_revoked:
  "revokedSessions (fst (enforceSecurityPolicies cfg u now d)) =
     int (length (policy_oldest cfg u now d)) + int (length (policy_stale cfg u now d))"
  unfolding enforceSecurityPolicies_def Let_def is_stale_eq needs_reauth_eq
  by (simp add: policy_oldest_def policy_stale_def policy_sessions_def)

lemma enforce_sessions:
  "sessions (snd (enforceSecurityPolicies cfg u now d)) =
     map (mark_all (s_token ` set (policy_oldest cfg u now d) \<union>
                    s_token ` set (policy_stale cfg u now d)) now) (sessions d)"
proof -
  have "sessions (snd (enforceSecurityPolicies cfg u now d)) =
        sessions (endSessions ''policy_violation_stale'' now (policy_stale cfg u now d)
                   (endSessions ''policy_violation_concurrent_limit'' now (policy_oldest cfg u now d) d))"
    unfolding enforceSecurityPolicies_def Let_def is_stale_eq needs_reauth_eq
    by (simp add: policy_oldest_def policy_stale_def policy_sessions_def)
  then show ?thesis
    by (simp add: sessions_endSessions mark_all_mark_all)
qed

lemma enforce_activities:
  "\<exists>evs. activities (snd (enforceSecurityPolicies cfg u now d)) =
           activities (endSessions ''policy_violation_stale'' now (policy_stale cfg u now d)
             (endSessions ''policy_violation_concurrent_limit'' now (policy_oldest cfg u now d) d))
           @ evs
         \<and> length evs \<le> 1
         \<and> list_all (\<lambda>a. ua_activity a = ''security_policy_enforced'') evs"
  unfolding enforceSecurityPolicies_def Let_def is_stale_eq needs_reauth_eq
  by (simp add: policy_oldest_def policy_stale_def policy_sessions_def logSessionActivity_def)

lemma set_policy_sessions [simp]:
  "set (policy_sessions cfg u now d) = set (getActiveSessions u now d)"
  by (simp add: policy_sessions_def)

lemma length_filter_sort:
  "length (filter Q (sort_key f xs)) = length (filter Q xs)"
  by (simp add: filter_sort)

lemma set_truthy_strings: "set (truthy_strings xs) = {s. Some s \<in> set xs \<and> s \<noteq> []}"
  by (induction xs rule: truthy_strings.induct) auto

lemma truthy_strings_mono:
  "set xs \<subseteq> set ys \<Longrightarrow> set (truthy_strings xs) \<subseteq> set (truthy_strings ys)"
  by (auto simp: set_truthy_strings)

lemma active_after_enforce:
  "getActiveSessions u now (snd (enforceSecurityPolicies cfg u now d)) =
     filter (\<lambda>s. s_token s \<notin> s_token ` set (policy_oldest cfg u now d) \<union>
                               s_token ` set (policy_stale cfg u now d))
       (getActiveSessions u now d)"
  by (rule getActiveSessions_marked) (rule enforce_sessions)

lemma active_after_bound:
  "int (length (getActiveSessions u now (snd (enforceSecurityPolicies cfg u now d))))
     \<le> maxConcurrentSessions cfg
   \<or> getActiveSessions u now (snd (enforceSecurityPolicies cfg u now d)) = []"
proof -
  define A where "A = getActiveSessions u now d"
  define T where "T = s_token ` set (policy_oldest cfg u now d) \<union>
                      s_token ` set (policy_stale cfg u now d)"
  define Q where "Q = (\<lambda>s :: user_session. s_token s \<notin> T)"
  have A': "getActiveSessions u now (snd (enforceSecurityPolicies cfg u now d)) = filter Q A"
    unfolding Q_def T_def A_def by (rule active_after_enforce)
  show ?thesis
  proof (cases "int (length A) > maxConcurrentSessions cfg")
    case False
    have "length (filter Q A) \<le> length A" by simp
    with False show ?thesis unfolding A' by linarith
  next
    case True
    define S where "S = sort_key s_lastActiveAt A"
    define k where "k = nat (int (length A) - maxConcurrentSessions cfg)"
    have O: "policy_oldest cfg u now d = take k S"
      using True by (simp add: policy_oldest_def A_def S_def k_def)
    have "\<forall>s \<in> set (take k S). \<not> Q s"
      by (simp add: Q_def T_def O)
    then have e: "filter Q (take k S) = []"
      by (simp add: filter_empty_conv)
    have "length (filter Q A) = length (filter Q S)"
      by (simp add: S_def length_filter_sort)
    also have "\<dots> = length (filter Q (take k S @ drop k S))"
      by simp
    also have "\<dots> = length (filter Q (drop k S))"
      unfolding filter_append e by simp
    also have "\<dots> \<le> length (drop k S)"
      by (rule length_filter_le)
    also have "\<dots> = length A - k"
      by (simp add: S_def)
    finally have le: "length (filter Q A) \<le> length A - k" .
    show ?thesis
    proof (cases "0 \<le> maxConcurrentSessions cfg")
      case True
      then have "int (length A - k) \<le> maxConcurrentSessions cfg"
        unfolding k_def by linarith
      with le show ?thesis unfolding A' by linarith
    next
      case False
      then have "length A - k = 0"
        unfolding k_def by linarith
      with le show ?thesis unfolding A' by simp
    qed
  qed
qed

lemma no_stale_after_enforce:
  "filter (is_stale cfg now) (getActiveSessions u now (snd (enforceSecurityPolicies cfg u now d))) = []"
  unfolding active_after_enforce
  by (auto simp: filter_empty_conv policy_stale_def)

lemma oldest_after_enforce:
  "policy_oldest cfg u now (snd (enforceSecurityPolicies cfg u now d)) = []"
  using active_after_bound [of u now cfg d]
  by (auto simp: policy_oldest_def)

lemma stale_after_enforce:
  "policy_stale cfg u now (snd (enforceSecurityPolicies cfg u now d)) = []"
proof -
  have "\<forall>s \<in> set (getActiveSessions u now (snd (enforceSecurityPolicies cfg u now d))).
          \<not> is_stale cfg now s"
    using no_stale_after_enforce [of cfg now u d] by (simp add: filter_empty_conv)
  then show ?thesis
    by (simp add: policy_stale_def filter_empty_conv)
qed

lemma set_getActiveSessions:
  "set (getActiveSessions u now d) = {s \<in> set (sessions d). is_active_for u now s}"
  by (simp add: getActiveSessions_alt)

lemma no_crossing_active:
  assumes "no_threshold_crossing cfg u now now' d"
  shows "getActiveSessions u now' d = getActiveSessions u now d"
proof -
  have "filter (is_active_for u now') (sessions d) = filter (is_active_for u now) (sessions d)"
    using assms
    by (intro filter_cong refl) (auto simp: no_threshold_crossing_def list_all_iff is_active_for_def)
  then show ?thesis
    by (simp add: getActiveSessions_alt)
qed

lemma no_crossing_sessions:
  assumes "no_threshold_crossing cfg u now now' d"
  shows "policy_sessions cfg u now' d = policy_sessions cfg u now d"
    and "policy_oldest cfg u now' d = policy_oldest cfg u now d"
  by (simp_all add: policy_sessions_def policy_oldest_def no_crossing_active [OF assms])

lemma no_crossing_filters:
  assumes "no_threshold_crossing cfg u now now' d"
  shows "filter (is_stale cfg now') (policy_sessions cfg u now d) =
         filter (is_stale cfg now) (policy_sessions cfg u now d)"
    and "filter (needs_reauth cfg now') (policy_sessions cfg u now d) =
         filter (needs_reauth cfg now) (policy_sessions cfg u now d)"
  using assms
  by (auto intro!: filter_cong
       simp: no_threshold_crossing_def list_all_iff set_getActiveSessions is_active_for_def)

lemma no_crossing_stale:
  assumes "no_threshold_crossing cfg u now now' d"
  shows "policy_stale cfg u now' d = policy_stale cfg u now d"
  by (simp add: policy_stale_def no_crossing_sessions [OF assms] no_crossing_filters [OF assms])

lemma no_crossing_violations:
  assumes "no_threshold_crossing cfg u now now' d"
  shows "policy_violations cfg u now' d = policy_violations cfg u now d"
  by (simp add: policy_violations_def no_crossing_sessions [OF assms] no_crossing_filters [OF assms]
        no_crossing_stale [OF assms] no_crossing_active [OF assms])

lemma conditional_lists_mono:
  assumes "a' \<Longrightarrow> a" "b' \<Longrightarrow> b" "c' \<Longrightarrow> c" "e' \<Longrightarrow> e" "f' \<Longrightarrow> f"
  shows "set ((if a' then [x1] else []) @ (if b' then [x2] else []) @ (if c' then [x3] else []) @
              (if e' then [x4] else []) @ (if f' then [x5] else []))
         \<subseteq> set ((if a then [x1] else []) @ (if b then [x2] else []) @ (if c then [x3] else []) @
                  (if e then [x4] else []) @ (if f then [x5] else []))"
  using assms by auto

lemma violations_after_enforce:
  "set (policy_violations cfg u now (snd (enforceSecurityPolicies cfg u now d)))
     \<subseteq> set (policy_violations cfg u now d)"
proof -
  define d' where "d' = snd (enforceSecurityPolicies cfg u now d)"
  define A where "A = getActiveSessions u now d"
  define A' where "A' = getActiveSessions u now d'"
  have sub: "set A' \<subseteq> set A"
    unfolding A'_def A_def d'_def active_after_enforce by auto
  have many: "int (length A') > maxConcurrentSessions cfg \<Longrightarrow>
              int (length A) > maxConcurrentSessions cfg"
    using active_after_bound [of u now cfg d] unfolding A'_def A_def d'_def by auto
  have ips: "set (truthy_strings (map s_ipAddress (policy_sessions cfg u now d')))
             \<subseteq> set (truthy_strings (map s_ipAddress (policy_sessions cfg u now d)))"
    using sub by (intro truthy_strings_mono) (auto simp: A'_def A_def)
  have "card (set (truthy_strings (map s_ipAddress (policy_sessions cfg u now d'))))
        \<le> card (set (truthy_strings (map s_ipAddress (policy_sessions cfg u now d))))"
    by (rule card_mono [OF _ ips]) simp
  then have multi: "length (remdups (truthy_strings (map s_ipAddress (policy_sessions cfg u now d')))) > 3
      \<Longrightarrow> length (remdups (truthy_strings (map s_ipAddress (policy_sessions cfg u now d)))) > 3"
    by (simp add: length_remdups_card_conv)
  have stale: "length (policy_stale cfg u now d') > 0 \<Longrightarrow> length (policy_stale cfg u now d) > 0"
    unfolding d'_def by (simp add: stale_after_enforce)
  have uas: "set (truthy_strings (map s_userAgent (policy_sessions cfg u now d')))
             \<subseteq> set (truthy_strings (map s_userAgent (policy_sessions cfg u now d)))"
    using sub by (intro truthy_strings_mono) (auto simp: A'_def A_def)
  have agents: "length (filter botAgent (truthy_strings (map s_userAgent (policy_sessions cfg u now d')))) > 0
      \<Longrightarrow> length (filter botAgent (truthy_strings (map s_userAgent (policy_sessions cfg u now d)))) > 0"
    using uas by (auto simp: filter_empty_conv)
  have reauth: "length (filter (needs_reauth cfg now) (policy_sessions cfg u now d')) > 0
      \<Longrightarrow> length (filter (needs_reauth cfg now) (policy_sessions cfg u now d)) > 0"
    using sub by (auto simp: filter_empty_conv A'_def A_def)
  show ?thesis
    unfolding d'_def [symmetric] policy_violations_def
    by (rule conditional_lists_mono)
       (use many multi stale agents reauth in \<open>simp_all only: A_def A'_def\<close>)
qed

text \<open>
  Claim C7. A second run of \<open>enforceSecurityPolicies\<close> on the store the first run
  left, with no session activity in between and no threshold crossed between the two
  clock readings, revokes nothing (\<open>revokedSessions = 0\<close>), leaves every session as it
  was, appends no \<open>session_ended\<close> event, and reports no violation the first run did not
  report; in particular it reports no stale session. Violations that only inform
  (several locations, automated user agents, sessions due for re-authentication) may be
  reported again, since the sessions they describe stay active.
\<close>

theorem policy_enforcement_idempotent:
  assumes "no_threshold_crossing cfg u now now' (snd (enforceSecurityPolicies cfg u now d))"
  shows "revokedSessions (fst (enforceSecurityPolicies cfg u now'
             (snd (enforceSecurityPolicies cfg u now d)))) = 0
       \<and> sessions (snd (enforceSecurityPolicies cfg u now'
             (snd (enforceSecurityPolicies cfg u now d)))) =
           sessions (snd (enforceSecurityPolicies cfg u now d))
       \<and> set (violations (fst (enforceSecurityPolicies cfg u now'
             (snd (enforceSecurityPolicies cfg u now d)))))
           \<subseteq> set (violations (fst (enforceSecurityPolicies cfg u now d)))
       \<and> ''stale_sessions'' \<notin> set (violations (fst (enforceSecurityPolicies cfg u now'
             (snd (enforceSecurityPolicies cfg u now d)))))
       \<and> (\<exists>evs. activities (snd (enforceSecurityPolicies cfg u now'
                    (snd (enforceSecurityPolicies cfg u now d)))) =
                 activities (snd (enforceSecurityPolicies cfg u now d)) @ evs
               \<and> list_all (\<lambda>a. ua_activity a = ''security_policy_enforced'') evs)"
proof -
  define d' where "d' = snd (enforceSecurityPolicies cfg u now d)"
  have nc: "no_threshold_crossing cfg u now now' d'"
    using assms by (simp add: d'_def)
  have "policy_oldest cfg u now d' = []"
    unfolding d'_def by (rule oldest_after_enforce)
  then have old: "policy_oldest cfg u now' d' = []"
    by (simp only: no_crossing_sessions(2) [OF nc])
  have "policy_stale cfg u now d' = []"
    unfolding d'_def by (rule stale_after_enforce)
  then have stale: "policy_stale cfg u now' d' = []"
    by (simp only: no_crossing_stale [OF nc])
  have a: "revokedSessions (fst (enforceSecurityPolicies cfg u now' d')) = 0"
    by (simp add: enforce_revoked old stale)
  have b: "sessions (snd (enforceSecurityPolicies cfg u now' d')) = sessions d'"
    by (simp add: enforce_sessions old stale mark_all_empty)
  have "set (policy_violations cfg u now d') \<subseteq> set (policy_violations cfg u now d)"
    unfolding d'_def by (rule violations_after_enforce)
  then have c: "set (violations (fst (enforceSecurityPolicies cfg u now' d')))
           \<subseteq> set (violations (fst (enforceSecurityPolicies cfg u now d)))"
    by (simp only: enforce_violations no_crossing_violations [OF nc])
  have e: "''stale_sessions'' \<notin> set (violations (fst (enforceSecurityPolicies cfg u now' d')))"
    unfolding enforce_violations by (simp add: policy_violations_def stale)
  have f: "\<exists>evs. activities (snd (enforceSecurityPolicies cfg u now' d')) = activities d' @ evs
               \<and> list_all (\<lambda>a. ua_activity a = ''security_policy_enforced'') evs"
    using enforce_activities [of cfg u now' d'] by (auto simp: old stale)
  from a b c e f show ?thesis
    unfolding d'_def by blast
qed

lemma find_by_token:
  "distinct (map s_token xs) \<Longrightarrow> x \<in> set xs \<Longrightarrow> find (\<lambda>s. s_token s = s_token x) xs = Some x"
  by (induction xs) (auto simp: image_iff)

lemma sort_key_head:
  assumes "xs \<noteq> []"
  shows "\<exists>x ys. sort_key f xs = x # ys \<and> x \<in> set xs \<and> (\<forall>y \<in> set xs. f x \<le> f y)"
proof -
  have "length (sort_key f xs) = length xs" by simp
  with assms obtain x ys where e: "sort_key f xs = x # ys"
    by (cases "sort_key f xs") auto
  have "set (sort_key f xs) = set xs" by simp
  with e have s: "set xs = insert x (set ys)" by simp
  have "sorted (map f (sort_key f xs))" by (rule sorted_sort_key)
  with e have "\<forall>y \<in> set ys. f x \<le> f y" by simp
  with s e show ?thesis by auto
qed

lemma mark_all_single: "mark_all {tok} t = mark_ended tok t"
  by (rule ext) (simp add: mark_all_def mark_ended_def)

lemma activities_endSession:
  "find (\<lambda>s. s_token s = tok) (sessions d) = Some x \<Longrightarrow>
     activities (endSession tok r t d) =
       activities d @ [\<lparr>ua_userId = s_userId x, ua_activity = ''session_ended'',
                        ua_sessionId = Some tok,
                        ua_metadata = SessionEnded r (t - s_createdAt x) t, ua_createdAt = t\<rparr>]"
  by (simp add: endSession_def logSessionActivity_def)

lemma distinct_tokens_active:
  assumes "distinct (map s_token (sessions d))"
  shows "distinct (map s_token (getActiveSessions u now d))"
proof -
  let ?F = "filter (is_active_for u now) (sessions d)"
  have "distinct (map s_token ?F)"
    using assms by (rule distinct_map_filter)
  then have "distinct ?F" "inj_on s_token (set ?F)"
    by (simp_all add: distinct_map)
  then show ?thesis
    by (simp add: getActiveSessions_alt distinct_map)
qed

text \<open>
  Claim C4, as the code has it. With \<open>maxConcurrentSessions = 5\<close>, unique session tokens
  and exactly 6 active sessions of the principal whose \<open>lastActiveAt\<close> values are
  pairwise distinct and none of which is stale, \<open>enforceSecurityPolicies\<close> ends exactly
  one session, the one with the smallest \<open>lastActiveAt\<close>, with reason
  \<open>policy_violation_concurrent_limit\<close>, leaves the other 5 active, and reports
  \<open>revokedSessions = 1\<close>.
\<close>

theorem concurrent_session_cap:
  assumes "maxConcurrentSessions cfg = 5"
    and "distinct (map s_token (sessions d))"
    and "length (getActiveSessions u now d) = 6"
    and "distinct (map s_lastActiveAt (getActiveSessions u now d))"
    and "list_all (\<lambda>s. \<not> is_stale cfg now s) (getActiveSessions u now d)"
  shows "\<exists>old. old \<in> set (getActiveSessions u now d)
       \<and> (\<forall>s \<in> set (getActiveSessions u now d). s \<noteq> old \<longrightarrow> s_lastActiveAt old < s_lastActiveAt s)
       \<and> revokedSessions (fst (enforceSecurityPolicies cfg u now d)) = 1
       \<and> sessions (snd (enforceSecurityPolicies cfg u now d)) =
           map (mark_ended (s_token old) now) (sessions d)
       \<and> getActiveSessions u now (snd (enforceSecurityPolicies cfg u now d)) =
           filter (\<lambda>s. s \<noteq> old) (getActiveSessions u now d)
       \<and> length (getActiveSessions u now (snd (enforceSecurityPolicies cfg u now d))) = 5
       \<and> (\<exists>evs. activities (snd (enforceSecurityPolicies cfg u now d)) =
                   activities d @
                   [\<lparr>ua_userId = s_userId old, ua_activity = ''session_ended'',
                     ua_sessionId = Some (s_token old),
                     ua_metadata = SessionEnded ''policy_violation_concurrent_limit''
                                     (now - s_createdAt old) now,
                     ua_createdAt = now\<rparr>] @ evs
                 \<and> list_all (\<lambda>a. ua_activity a = ''security_policy_enforced'') evs)"
proof -
  define A where "A = getActiveSessions u now d"
  have lenA: "length A = 6" and dl: "distinct (map s_lastActiveAt A)"
    and fresh: "\<forall>s \<in> set A. \<not> is_stale cfg now s"
    using assms(3-5) by (simp_all add: A_def list_all_iff)
  have dt: "distinct (map s_token A)"
    unfolding A_def using assms(2) by (rule distinct_tokens_active)
  then have dA: "distinct A" and inj: "inj_on s_token (set A)"
    by (simp_all add: distinct_map)
  from lenA have "A \<noteq> []" by auto
  from sort_key_head [OF this, of s_lastActiveAt]
  obtain old ys where srt: "sort_key s_lastActiveAt A = old # ys" and oldA: "old \<in> set A"
    and least: "\<forall>y \<in> set A. s_lastActiveAt old \<le> s_lastActiveAt y"
    by blast
  have strict: "\<forall>s \<in> set A. s \<noteq> old \<longrightarrow> s_lastActiveAt old < s_lastActiveAt s"
  proof (intro ballI impI)
    fix s assume s: "s \<in> set A" "s \<noteq> old"
    from dl have "inj_on s_lastActiveAt (set A)" by (simp add: distinct_map)
    with s oldA have "s_lastActiveAt s \<noteq> s_lastActiveAt old"
      by (auto dest: inj_onD)
    with least s show "s_lastActiveAt old < s_lastActiveAt s" by fastforce
  qed
  have oldest: "policy_oldest cfg u now d = [old]"
    using lenA assms(1) srt by (simp add: policy_oldest_def A_def [symmetric])
  have stale: "policy_stale cfg u now d = []"
    using fresh by (simp add: policy_stale_def filter_empty_conv A_def)
  have rev: "revokedSessions (fst (enforceSecurityPolicies cfg u now d)) = 1"
    by (simp add: enforce_revoked oldest stale)
  have ses: "sessions (snd (enforceSecurityPolicies cfg u now d)) =
             map (mark_ended (s_token old) now) (sessions d)"
    by (simp add: enforce_sessions oldest stale mark_all_single)
  have "getActiveSessions u now (snd (enforceSecurityPolicies cfg u now d)) =
        filter (\<lambda>s. s_token s \<noteq> s_token old) A"
    by (simp add: active_after_enforce oldest stale A_def)
  also have "\<dots> = filter (\<lambda>s. s \<noteq> old) A"
    using inj oldA by (intro filter_cong refl) (auto dest: inj_onD)
  finally have act: "getActiveSessions u now (snd (enforceSecurityPolicies cfg u now d)) =
                     filter (\<lambda>s. s \<noteq> old) A" .
  have "filter (\<lambda>s. s \<noteq> old) A = removeAll old A"
    by (induction A) auto
  also have "\<dots> = remove1 old A"
    using dA by (simp add: distinct_remove1_removeAll)
  finally have "length (filter (\<lambda>s. s \<noteq> old) A) = 5"
    using oldA lenA by (simp add: length_remove1)
  with act have len: "length (getActiveSessions u now (snd (enforceSecurityPolicies cfg u now d))) = 5"
    by simp
  have "old \<in> set (sessions d)"
    using oldA by (simp add: A_def set_getActiveSessions)
  with assms(2) have "find (\<lambda>s. s_token s = s_token old) (sessions d) = Some old"
    by (rule find_by_token)
  then have "activities (endSessions ''policy_violation_stale'' now []
               (endSessions ''policy_violation_concurrent_limit'' now [old] d)) =
             activities d @
               [\<lparr>ua_userId = s_userId old, ua_activity = ''session_ended'',
                 ua_sessionId = Some (s_token old),
                 ua_metadata = SessionEnded ''policy_violation_concurrent_limit''
                                 (now - s_createdAt old) now,
                 ua_createdAt = now\<rparr>]"
    by (simp add: endSessions_def activities_endSession)
  with enforce_activities [of cfg u now d]
  have log: "\<exists>evs. activities (snd (enforceSecurityPolicies cfg u now d)) =
                   activities d @
                   [\<lparr>ua_userId = s_userId old, ua_activity = ''session_ended'',
                     ua_sessionId = Some (s_token old),
                     ua_metadata = SessionEnded ''policy_violation_concurrent_limit''
                                     (now - s_createdAt old) now,
                     ua_createdAt = now\<rparr>] @ evs
                 \<and> list_all (\<lambda>a. ua_activity a = ''security_policy_enforced'') evs"
    unfolding oldest stale by auto
  from oldA strict rev ses act len log show ?thesis
    unfolding A_def by blast
qed

theorem concurrent_session_cap_witness:
  "revokedSessions (fst (enforceSecurityPolicies defaultSessionConfig ''user_123'' 4000000000
      fresh_sessions_db)) = 1
   \<and> length (getActiveSessions ''user_123'' 4000000000
        (snd (enforceSecurityPolicies defaultSessionConfig ''user_123'' 4000000000
           fresh_sessions_db))) = 5"
proof -
  have 1: "maxConcurrentSessions defaultSessionConfig = 5"
    by (simp add: defaultSessionConfig_def)
  have 2: "distinct (map s_token (sessions fresh_sessions_db))"
    by code_simp
  have 3: "length (getActiveSessions ''user_123'' 4000000000 fresh_sessions_db) = 6"
    by code_simp
  have 4: "distinct (map s_lastActiveAt (getActiveSessions ''user_123'' 4000000000 fresh_sessions_db))"
    by code_simp
  have 5: "list_all (\<lambda>s. \<not> is_stale defaultSessionConfig 4000000000 s)
             (getActiveSessions ''user_123'' 4000000000 fresh_sessions_db)"
    by code_simp
  from concurrent_session_cap [OF 1 2 3 4 5] show ?thesis
    by blast
qed

text \<open>
  Claim C4 as stated fails when some of the six sessions are stale: the stale check runs
  over the sessions fetched at the start, so here the oldest session is ended and counted
  twice, a second session is ended as well, and the report says \<open>revokedSessions = 3\<close>.
\<close>

theorem concurrent_session_cap_stale_counterexample:
  "maxConcurrentSessions defaultSessionConfig = 5
   \<and> length (getActiveSessions ''user_123'' 4000000000 six_sessions_db) = 6
   \<and> distinct (map s_lastActiveAt (getActiveSessions ''user_123'' 4000000000 six_sessions_db))
   \<and> revokedSessions (fst (enforceSecurityPolicies defaultSessionConfig ''user_123'' 4000000000
        six_sessions_db)) = 3
   \<and> length (getActiveSessions ''user_123'' 4000000000
        (snd (enforceSecurityPolicies defaultSessionConfig ''user_123'' 4000000000
           six_sessions_db))) = 4"
  by code_simp

theorem policy_enforcement_idempotent_witness:
  "revokedSessions (fst (enforceSecurityPolicies defaultSessionConfig ''user_123'' 4000001000
      (snd (enforceSecurityPolicies defaultSessionConfig ''user_123'' 4000000000
         six_sessions_db)))) = 0
   \<and> sessions (snd (enforceSecurityPolicies defaultSessionConfig ''user_123'' 4000001000
      (snd (enforceSecurityPolicies defaultSessionConfig ''user_123'' 4000000000
         six_sessions_db)))) =
     sessions (snd (enforceSecurityPolicies defaultSessionConfig ''user_123'' 4000000000
         six_sessions_db))"
proof -
  have "no_threshold_crossing defaultSessionConfig ''user_123'' 4000000000 4000001000
          (snd (enforceSecurityPolicies defaultSessionConfig ''user_123'' 4000000000
             six_sessions_db))"
    by code_simp
  from policy_enforcement_idempotent [OF this] show ?thesis
    by blast
qed

section \<open>Properties of the profile sync engine and of two-factor setup\<close>

lemma user_field_changes_applied:
  "user_field_changes cu (apply_user_update cu t u) = []"
  by (simp add: user_field_changes_def apply_user_update_def)

lemma user_field_changes_profile [simp]:
  "user_field_changes cu (u\<lparr>u_profile := p\<rparr>) = user_field_changes cu u"
  "user_field_changes cu (u\<lparr>u_preferences := q\<rparr>) = user_field_changes cu u"
  by (simp_all add: user_field_changes_def)

lemma profile_changes_upsert:
  "profile_changes pd (Some (upsert_profile pd t p)) = []"
  by (simp add: profile_changes_def upsert_profile_def)

lemma as_String_Some [simp]: "as_String v = Some x \<longleftrightarrow> v = JString x"
  by (cases v) auto

lemma preference_changes_upsert:
  assumes "upsert_preferences pd t = Some q"
  shows "preference_changes pd (Some q) = []"
  using assms
  by (auto simp: preference_changes_def upsert_preferences_def bind_eq_Some_conv)

lemma syncProfileData_in_sync:
  assumes "db_users w P = Some u" "in_sync cu u"
  shows "fst (syncProfileData P cu opts t w) = []"
  using assms by (simp add: syncProfileData_def in_sync_def Let_def split: if_splits)

lemma syncFromClerk_in_sync:
  assumes "clerk_users w P = Some cu" "db_users w P = Some u" "in_sync cu u"
  shows "sr_changes (fst (syncFromClerk P opts t w)) = []"
proof -
  have c: "user_field_changes cu u = []"
    using assms(3) by (simp add: in_sync_def)
  have "fst (syncProfileData P cu opts t w) = []"
    using assms(2,3) by (rule syncProfileData_in_sync)
  then show ?thesis
    using assms(1,2) c
    by (auto simp: syncFromClerk_def Let_def split: prod.splits)
qed

lemma syncProfileData_writes:
  assumes "db_users w P = Some u" "force opts \<or> \<not> skipConflicts opts"
    and "user_field_changes cu u = []"
    and "upsert_preferences (cu_preferences cu) t = Some q"
  shows "\<exists>u'. db_users (snd (syncProfileData P cu opts t w)) P = Some u' \<and> in_sync cu u'
       \<and> clerk_users (snd (syncProfileData P cu opts t w)) = clerk_users w"
  using assms preference_changes_upsert [OF assms(4)]
  by (auto simp: syncProfileData_def in_sync_def Let_def profile_changes_upsert)

lemma syncFromClerk_existing:
  assumes "clerk_users w P = Some cu" "db_users w P = Some u"
  shows "snd (syncFromClerk P opts t w) =
     (let conflicts = (if \<not> force opts \<and> u_updatedAt u > cu_updatedAt cu
                       then [''user_data_newer_in_database''] else []);
          changes = user_field_changes cu u;
          w1 = (if changes \<noteq> [] \<and> (force opts \<or> conflicts = [])
                then w\<lparr>db_users := (db_users w)(P \<mapsto> apply_user_update cu t u)\<rparr> else w);
          w2 = snd (syncProfileData P cu opts t w1)
      in w2\<lparr>activity_log :=
              logSyncActivity P (changes @ fst (syncProfileData P cu opts t w1)) True None
                conflicts t (activity_log w2)\<rparr>)"
  using assms by (simp add: syncFromClerk_def Let_def split: prod.splits)

text \<open>
  For a principal that has a local row, when \<open>syncFromClerk\<close> writes the differences it
  finds (\<open>force\<close> is set, or the local row is not newer than the external record and
  \<open>skipConflicts\<close> is not set) and the values of the \<open>preferences\<close> object have the types
  of their columns, a second call with no change to the external record in between
  returns an empty \<open>changes\<close> list, whatever its options and its clock reading.
\<close>

lemma syncFromClerk_after_write:
  assumes "clerk_users w P = Some cu" and "db_users w P = Some u"
    and "force opts \<or> (\<not> skipConflicts opts \<and> \<not> u_updatedAt u > cu_updatedAt cu)"
    and "upsert_preferences (cu_preferences cu) t = Some q"
  shows "sr_changes (fst (syncFromClerk P opts' t' (snd (syncFromClerk P opts t w)))) = []"
proof -
  define u1 where "u1 = (if user_field_changes cu u \<noteq> [] then apply_user_update cu t u else u)"
  define w1 where "w1 = w\<lparr>db_users := (db_users w)(P \<mapsto> u1)\<rparr>"
  have fresh: "user_field_changes cu u1 = []"
    by (simp add: u1_def user_field_changes_applied)
  have w1: "db_users w1 P = Some u1" "clerk_users w1 = clerk_users w"
    by (simp_all add: w1_def)
  have "w\<lparr>db_users := (db_users w)(P \<mapsto> u)\<rparr> = w"
    using assms(2) by (simp add: fun_upd_idem)
  then have step: "snd (syncFromClerk P opts t w) =
      (snd (syncProfileData P cu opts t w1))
        \<lparr>activity_log :=
           logSyncActivity P (user_field_changes cu u @ fst (syncProfileData P cu opts t w1)) True
             None (if \<not> force opts \<and> u_updatedAt u > cu_updatedAt cu
                   then [''user_data_newer_in_database''] else []) t
             (activity_log (snd (syncProfileData P cu opts t w1)))\<rparr>"
    using assms(3)
    by (auto simp: syncFromClerk_existing [OF assms(1,2)] Let_def w1_def u1_def)
  from assms(3) have "force opts \<or> \<not> skipConflicts opts" by blast
  from syncProfileData_writes [OF w1(1) this fresh assms(4)]
  obtain u' where u': "db_users (snd (syncProfileData P cu opts t w1)) P = Some u'"
    "in_sync cu u'" "clerk_users (snd (syncProfileData P cu opts t w1)) = clerk_users w1"
    by blast
  have "clerk_users (snd (syncFromClerk P opts t w)) P = Some cu"
    unfolding step using u'(3) w1(2) assms(1) by simp
  moreover have "db_users (snd (syncFromClerk P opts t w)) P = Some u'"
    unfolding step using u'(1) by simp
  ultimately show ?thesis
    using u'(2) by (rule syncFromClerk_in_sync)
qed

text \<open>
  A key of the \<open>preferences\<close> object whose value is \<open>null\<close> is enough for the preferences
  to be compared: with \<open>{theme: null}\<close> against the local theme \<open>dark\<close> the call lists
  \<open>preferences_theme\<close> and overwrites the local theme with the default.
\<close>

lemma syncFromClerk_null_preference:
  "sr_changes (fst (syncFromClerk ''clerk_123'' default_options 3000 null_theme_world)) =
     [''preferences_theme'']
   \<and> map_option (map_option pr_theme \<circ> u_preferences)
        (db_users (snd (syncFromClerk ''clerk_123'' default_options 3000 null_theme_world))
           ''clerk_123'') = Some (Some ''system'')"
  by code_simp

text \<open>
  Claim C8 at a principal whose local row is newer than the external record and differs
  from it in the first name. The first \<open>syncFromClerk\<close> records the conflict and leaves
  the row as it was, yet lists \<open>firstName\<close> among its changes and reports
  \<open>Synchronized 1 changes from Clerk\<close>. The second call, with no change to the external
  record in between, lists \<open>firstName\<close> again, where the claim says the list is empty.
\<close>

theorem sync_conflict_lists_unwritten_change:
  "sr_changes (fst (syncFromClerk ''clerk_123'' default_options 3000 conflicting_world)) =
     [''firstName'']
   \<and> sr_conflicts (fst (syncFromClerk ''clerk_123'' default_options 3000 conflicting_world)) =
     [''user_data_newer_in_database'']
   \<and> sr_message (fst (syncFromClerk ''clerk_123'' default_options 3000 conflicting_world)) =
     ''Synchronized 1 changes from Clerk''
   \<and> db_users (snd (syncFromClerk ''clerk_123'' default_options 3000 conflicting_world))
        ''clerk_123'' = Some (example_db_user 2000)
   \<and> sr_changes (fst (syncFromClerk ''clerk_123'' default_options 4000
        (snd (syncFromClerk ''clerk_123'' default_options 3000 conflicting_world)))) =
     [''firstName'']"
  by code_simp

text \<open>
  Claim C9. On a principal whose identity record has two-factor authentication enabled,
  \<open>enableTwoFactor\<close> returns \<open>success = false\<close> with the message that it is already
  enabled and no secret, QR code or backup codes, and changes nothing: the identity
  provider's records, the local rows and the activity log (hence the stored TOTP secret
  and the stored backup codes) are as before.
\<close>

theorem enable_two_factor_guard:
  assumes "clerk_users w userId = Some user" and "cu_twoFactorEnabled user"
  shows "enableTwoFactor H qr codes secret userId ip now w =
           (Inr \<lparr>tf_success = False,
                  tf_message = Some ''Two-factor authentication is already enabled'',
                  tf_secret = None, tf_qrCode = None, tf_backupCodes = None\<rparr>, w)
       \<and> clerk_users (snd (enableTwoFactor H qr codes secret userId ip now w)) = clerk_users w
       \<and> db_users (snd (enableTwoFactor H qr codes secret userId ip now w)) = db_users w
       \<and> stored_codes userId (activity_log (snd (enableTwoFactor H qr codes secret userId ip now w))) =
           stored_codes userId (activity_log w)"
  using assms by (simp add: enableTwoFactor_def)

theorem enable_two_factor_guard_witness:
  "enableTwoFactor (\<lambda>c. c) (\<lambda>email secret. secret) [''AAAA1111''] ''NEWSECRET'' ''clerk_123''
      (Some ''10.0.0.1'') 5000 conflicting_world =
     (Inr \<lparr>tf_success = False,
            tf_message = Some ''Two-factor authentication is already enabled'',
            tf_secret = None, tf_qrCode = None, tf_backupCodes = None\<rparr>, conflicting_world)"
proof -
  have 1: "clerk_users conflicting_world ''clerk_123'' = Some example_clerk_user"
    by (simp add: conflicting_world_def)
  have 2: "cu_twoFactorEnabled example_clerk_user"
    by (simp add: example_clerk_user_def)
  from enable_two_factor_guard [OF 1 2] show ?thesis
    by blast
qed

end
